theory Spec2Isabelle
  imports Main "HOL-Library.Word" "HOL-Library.Code_Target_Numeral"
begin

section \<open>Go library functions called by graceful.go\<close>

text \<open>
  The controller in \<^verbatim>\<open>graceful.go\<close> calls \<^verbatim>\<open>strconv.Itoa\<close>, \<^verbatim>\<open>strconv.Atoi\<close>,
  \<^verbatim>\<open>strings.Split\<close>, \<^verbatim>\<open>strings.Join\<close>, \<^verbatim>\<open>filepath.Join\<close> and a handful of
  \<^verbatim>\<open>os\<close> functions. They are modelled here after the Go standard library. Go strings are
  byte sequences, as \<^typ>\<open>string\<close> is. Go's \<^verbatim>\<open>int\<close> is taken to be 64 bits wide (linux/amd64,
  linux/arm64, darwin), and is an \<^typ>\<open>int\<close> whose range is checked where the library checks it.
\<close>

subsection \<open>strconv\<close>

datatype NumError = ErrSyntax | ErrRange

definition digitChar :: "nat \<Rightarrow> char" where
  "digitChar d = ''0123456789'' ! d"

text \<open>The decimal digits of an unsigned value, most significant first.\<close>

fun formatBits :: "nat \<Rightarrow> string" where
  "formatBits u =
     (if u < 10 then [digitChar u] else formatBits (u div 10) @ [digitChar (u mod 10)])"

declare formatBits.simps [simp del]

text \<open>\<^verbatim>\<open>strconv.Itoa(i)\<close> is \<^verbatim>\<open>FormatInt(int64(i), 10)\<close>: a minus sign for a negative value,
  then the digits of the magnitude.\<close>

definition Itoa :: "int \<Rightarrow> string" where
  "Itoa i = (if i < 0 then CHR ''-'' # formatBits (nat (- i)) else formatBits (nat i))"

text \<open>Subtraction of two bytes, wrapping around as Go's \<^verbatim>\<open>ch -= '0'\<close> on a \<^verbatim>\<open>byte\<close> does.\<close>

definition byteSub :: "char \<Rightarrow> char \<Rightarrow> nat" where
  "byteSub a b = (of_char a + 256 - of_char b) mod 256"

text \<open>The fast path of \<^verbatim>\<open>Atoi\<close>, taken for strings of 1 to 18 bytes: no overflow is possible.\<close>

fun atoiFastLoop :: "int \<Rightarrow> string \<Rightarrow> NumError + int" where
  "atoiFastLoop n [] = Inr n"
| "atoiFastLoop n (ch # s) =
     (let d = byteSub ch CHR ''0'' in
      if d > 9 then Inl ErrSyntax else atoiFastLoop (n * 10 + int d) s)"

definition atoiFast :: "string \<Rightarrow> NumError + int" where
  "atoiFast s0 =
     (let signed = (hd s0 = CHR ''-'' \<or> hd s0 = CHR ''+'');
          s = (if signed then tl s0 else s0)
      in
      if signed \<and> length s < 1 then Inl ErrSyntax
      else (case atoiFastLoop 0 s of
              Inl e \<Rightarrow> Inl e
            | Inr n \<Rightarrow> Inr (if hd s0 = CHR ''-'' then - n else n)))"

definition maxUint64 :: nat where
  "maxUint64 = 2 ^ 64 - 1"

text \<open>The digit loop of \<^verbatim>\<open>ParseUint(s, 10, 64)\<close>: a byte that is no digit is a syntax error,
  a value beyond 64 bits a range error, whichever the loop meets first.\<close>

fun parseUintLoop :: "nat \<Rightarrow> string \<Rightarrow> NumError + nat" where
  "parseUintLoop n [] = Inr n"
| "parseUintLoop n (c # s) =
     (let d = byteSub c CHR ''0'' in
      if d > 9 then Inl ErrSyntax
      else if n \<ge> maxUint64 div 10 + 1 then Inl ErrRange
      else if n * 10 + d > maxUint64 then Inl ErrRange
      else parseUintLoop (n * 10 + d) s)"

definition ParseUint :: "string \<Rightarrow> NumError + nat" where
  "ParseUint s = (if s = [] then Inl ErrSyntax else parseUintLoop 0 s)"

text \<open>\<^verbatim>\<open>ParseInt(s, 10, 0)\<close>: an optional sign, then \<^verbatim>\<open>ParseUint\<close>; a range error of
  \<^verbatim>\<open>ParseUint\<close> carries the largest 64-bit value on, which the signed cutoff then rejects.\<close>

definition ParseInt :: "string \<Rightarrow> NumError + int" where
  "ParseInt s0 =
     (if s0 = [] then Inl ErrSyntax
      else
        let neg = (hd s0 = CHR ''-'');
            s = (if hd s0 = CHR ''+'' \<or> hd s0 = CHR ''-'' then tl s0 else s0)
        in (case ParseUint s of
              Inl ErrSyntax \<Rightarrow> Inl ErrSyntax
            | r \<Rightarrow>
                let un = (case r of Inr u \<Rightarrow> u | Inl _ \<Rightarrow> maxUint64) in
                if \<not> neg \<and> un \<ge> 2 ^ 63 then Inl ErrRange
                else if neg \<and> un > 2 ^ 63 then Inl ErrRange
                else Inr (if neg then - int un else int un)))"

definition Atoi :: "string \<Rightarrow> NumError + int" where
  "Atoi s = (if 0 < length s \<and> length s < 19 then atoiFast s else ParseInt s)"

subsection \<open>strings\<close>

text \<open>\<^verbatim>\<open>strings.Split(s, sep)\<close> for a separator of one byte, the only kind the controller
  passes: cut at every occurrence of the separator; a string without it is returned whole,
  so the result is never empty.\<close>

function Split :: "string \<Rightarrow> char \<Rightarrow> string list" where
  "Split s sep =
     (case dropWhile (\<lambda>c. c \<noteq> sep) s of
        [] \<Rightarrow> [s]
      | _ # rest \<Rightarrow> takeWhile (\<lambda>c. c \<noteq> sep) s # Split rest sep)"
  by pat_completeness auto
termination
proof (relation "measure (\<lambda>(s, sep). length s)")
  show "wf (measure (\<lambda>(s, sep). length s))"
    by simp
next
  fix s :: string and sep c rest
  assume "dropWhile (\<lambda>c. c \<noteq> sep) s = c # rest"
  then have "length (c # rest) \<le> length s"
    by (metis length_dropWhile_le)
  then show "((rest, sep), (s, sep)) \<in> measure (\<lambda>(s, sep). length s)"
    by simp
qed

declare Split.simps [simp del]

fun Join :: "string list \<Rightarrow> string \<Rightarrow> string" where
  "Join [] sep = []"
| "Join [a] sep = a"
| "Join (a # b # bs) sep = a @ sep @ Join (b # bs) sep"

subsection \<open>path/filepath (Unix)\<close>

text \<open>\<^verbatim>\<open>filepath.Clean\<close> works on the elements between slashes: empty elements and
  \<^verbatim>\<open>.\<close> are dropped, \<^verbatim>\<open>..\<close> removes the element before it, is dropped at the root and
  is kept at the front of a relative path.\<close>

fun cleanElems :: "bool \<Rightarrow> string list \<Rightarrow> string list \<Rightarrow> string list" where
  "cleanElems rooted out [] = out"
| "cleanElems rooted out (e # es) =
     (if e = [] \<or> e = ''.'' then cleanElems rooted out es
      else if e = ''..'' then
        (if out \<noteq> [] \<and> last out \<noteq> ''..'' then cleanElems rooted (butlast out) es
         else if rooted then cleanElems rooted out es
         else cleanElems rooted (out @ [''..'']) es)
      else cleanElems rooted (out @ [e]) es)"

definition Clean :: "string \<Rightarrow> string" where
  "Clean path =
     (if path = [] then ''.''
      else
        let rooted = (hd path = CHR ''/'');
            out = cleanElems rooted [] (Split path CHR ''/'');
            r = (if rooted then ''/'' else []) @ Join out ''/''
        in if r = [] then ''.'' else r)"

definition filepath_Join :: "string list \<Rightarrow> string" where
  "filepath_Join elem =
     (case dropWhile (\<lambda>e. e = []) elem of
        [] \<Rightarrow> []
      | es \<Rightarrow> Clean (Join es ''/''))"

section \<open>The operating system as the controller sees it\<close>

datatype Errno = ENOENT | EACCES | EPERM | EROFS | ENOSPC | EIO | EAGAIN

datatype Syscall = SysStat | SysUnlink | SysOpen | SysSeek | SysWrite | SysTruncate | SysFsync

datatype Signal = SIGHUP | SIGUSR1

text \<open>
  The part of the machine the controller touches: the process environment, the files by path
  (content as bytes), the system calls that the kernel refuses on a path (permissions, a
  read-only or full file system), the live processes, the pid of the current process, the
  seconds slept so far, the number of protocol handshakes performed on the device, and, by
  path, the file content that has reached stable storage (what \<^verbatim>\<open>fsync\<close> has flushed).
\<close>

record World =
  environ :: "string \<rightharpoonup> string"
  files :: "string \<rightharpoonup> string"
  fault :: "Syscall \<Rightarrow> string \<rightharpoonup> Errno"
  procs :: "int set"
  pid :: int
  clock :: nat
  handshakes :: nat
  durable :: "string \<rightharpoonup> string"

text \<open>
  What lies outside the current process during a restart: whether launching the child
  succeeds (and with which pid), and what the other processes, the child among them, do to
  the machine during each second the parent sleeps.
\<close>

record Outside =
  launch :: "Errno + int"
  others :: "nat \<Rightarrow> World \<Rightarrow> World"

text \<open>\<^verbatim>\<open>os.Getenv\<close> returns the empty string for a variable that is not set.\<close>

definition os_Getenv :: "World \<Rightarrow> string \<Rightarrow> string" where
  "os_Getenv w key = (case environ w key of None \<Rightarrow> [] | Some v \<Rightarrow> v)"

definition os_Setenv :: "string \<Rightarrow> string \<Rightarrow> World \<Rightarrow> World" where
  "os_Setenv key v w = w\<lparr>environ := (environ w)(key \<mapsto> v)\<rparr>"

definition os_Getpid :: "World \<Rightarrow> int" where
  "os_Getpid w = pid w"

text \<open>\<^verbatim>\<open>os.Stat\<close>, of which the controller keeps the error only.\<close>

definition os_Stat :: "World \<Rightarrow> string \<Rightarrow> Errno option" where
  "os_Stat w path =
     (case fault w SysStat path of
        Some e \<Rightarrow> Some e
      | None \<Rightarrow> (case files w path of None \<Rightarrow> Some ENOENT | Some _ \<Rightarrow> None))"

definition os_IsNotExist :: "Errno option \<Rightarrow> bool" where
  "os_IsNotExist err = (err = Some ENOENT)"

definition os_Remove :: "string \<Rightarrow> World \<Rightarrow> Errno option \<times> World" where
  "os_Remove path w =
     (case fault w SysUnlink path of
        Some e \<Rightarrow> (Some e, w)
      | None \<Rightarrow>
          (case files w path of
             None \<Rightarrow> (Some ENOENT, w)
           | Some _ \<Rightarrow> (None, w\<lparr>files := (files w)(path := None)\<rparr>)))"

text \<open>On Unix \<^verbatim>\<open>os.FindProcess\<close> always succeeds, whether or not a process with that pid
  exists: it only wraps the pid.\<close>

definition os_FindProcess :: "World \<Rightarrow> int \<Rightarrow> Errno option" where
  "os_FindProcess w p = None"

text \<open>\<^verbatim>\<open>exec.Cmd.Start\<close>: the child is launched, or the launch fails.\<close>

definition cmd_Start :: "Outside \<Rightarrow> World \<Rightarrow> (Errno + int) \<times> World" where
  "cmd_Start out w =
     (case launch out of
        Inl e \<Rightarrow> (Inl e, w)
      | Inr p \<Rightarrow> (Inr p, w\<lparr>procs := insert p (procs w)\<rparr>))"

text \<open>\<^verbatim>\<open>time.Sleep(time.Second)\<close>: the other processes run for a second; they cannot change
  the environment or the pid of the current process.\<close>

definition time_Sleep :: "Outside \<Rightarrow> World \<Rightarrow> World" where
  "time_Sleep out w =
     (others out (clock w) w)\<lparr>environ := environ w, pid := pid w, clock := clock w + 1,
        handshakes := handshakes w\<rparr>"

text \<open>
  An open file is its path and the current offset. \<^verbatim>\<open>os.OpenFile\<close> with
  \<^verbatim>\<open>O_CREATE|O_WRONLY\<close> creates an empty file where there is none and keeps an existing
  one as it is. A write puts the bytes at the offset, over what was there; truncation cuts
  the file (or pads it with zero bytes) to the given length. A refused write is modelled as
  writing nothing.
\<close>

type_synonym OsFile = "string \<times> nat"

definition os_OpenFile :: "string \<Rightarrow> World \<Rightarrow> (Errno + OsFile) \<times> World" where
  "os_OpenFile path w =
     (case fault w SysOpen path of
        Some e \<Rightarrow> (Inl e, w)
      | None \<Rightarrow>
          (Inr (path, 0),
           (case files w path of
              None \<Rightarrow> w\<lparr>files := (files w)(path \<mapsto> [])\<rparr>
            | Some _ \<Rightarrow> w)))"

definition file_Seek :: "OsFile \<Rightarrow> nat \<Rightarrow> World \<Rightarrow> Errno + OsFile" where
  "file_Seek f off w =
     (case fault w SysSeek (fst f) of
        Some e \<Rightarrow> Inl e
      | None \<Rightarrow> Inr (fst f, off))"

definition content :: "World \<Rightarrow> string \<Rightarrow> string" where
  "content w path = (case files w path of None \<Rightarrow> [] | Some bs \<Rightarrow> bs)"

definition padTo :: "nat \<Rightarrow> string \<Rightarrow> string" where
  "padTo n bs = bs @ replicate (n - length bs) (CHR 0x00)"

definition file_Write :: "OsFile \<Rightarrow> string \<Rightarrow> World \<Rightarrow> (nat \<times> Errno option) \<times> OsFile \<times> World" where
  "file_Write f bs w =
     (case fault w SysWrite (fst f) of
        Some e \<Rightarrow> ((0, Some e), f, w)
      | None \<Rightarrow>
          (let old = content w (fst f);
               new = take (snd f) (padTo (snd f) old) @ bs @ drop (snd f + length bs) old
           in ((length bs, None), (fst f, snd f + length bs),
               w\<lparr>files := (files w)(fst f \<mapsto> new)\<rparr>)))"

definition file_Truncate :: "OsFile \<Rightarrow> nat \<Rightarrow> World \<Rightarrow> Errno option \<times> World" where
  "file_Truncate f n w =
     (case fault w SysTruncate (fst f) of
        Some e \<Rightarrow> (Some e, w)
      | None \<Rightarrow> (None, w\<lparr>files := (files w)(fst f \<mapsto> take n (padTo n (content w (fst f))))\<rparr>))"

text \<open>\<^verbatim>\<open>File.Sync\<close>: the content of the file as it is now reaches stable storage.\<close>

definition file_Sync :: "OsFile \<Rightarrow> World \<Rightarrow> Errno option \<times> World" where
  "file_Sync f w =
     (case fault w SysFsync (fst f) of
        Some e \<Rightarrow> (Some e, w)
      | None \<Rightarrow> (None, w\<lparr>durable := (durable w)(fst f := files w (fst f))\<rparr>))"

section \<open>The restart controller\<close>

text \<open>
  The mount configuration, the loggers and the device file are opaque to the controller;
  each is a handle. Logging has no effect the controller depends on and is left out.
\<close>

datatype MountConfig = MountConfig nat

datatype Logger = Logger nat

datatype File = NewFile nat string

datatype error =
    ErrGRestartFailed
  | ErrGRestartChildNotReady
  | Errorf string
  | ErrNum NumError
  | ErrSys Errno
  | ErrCollaborator nat

datatype panic = NilPointerDereference

record Protocol =
  Major :: "32 word"
  Minor :: "32 word"

record Connection =
  cfg :: MountConfig
  debugLogger :: Logger
  errorLogger :: Logger
  conn_dev :: "File option"
  cancelFuncs :: "64 word \<rightharpoonup> unit"
  protocol :: Protocol

text \<open>
  The fields of \<^verbatim>\<open>Graceful\<close>. The two signal channels have capacity 1 and hold the signals
  buffered in them; \<^verbatim>\<open>stop\<close> is an unbuffered channel that is only ever closed. The
  callback \<^verbatim>\<open>restartCb\<close> and the mutex have no field: the callback's results are supplied by
  the events of the watch task below, and the mutex guards one check-and-set that is a single
  step there.
\<close>

record Graceful =
  dev :: "File option"
  conn :: "Connection option"
  startNoti :: "Signal list"
  stop_closed :: bool
  recoveredVer :: "int list"
  recovered :: bool
  runDir :: string
  progName :: string
  restartNoti :: "Signal list"
  restarting :: bool
  pidFile :: string
  logger :: Logger
  RestartTimeout :: int

text \<open>\<^verbatim>\<open>new(Graceful)\<close>: every field has its zero value.\<close>

definition new_Graceful :: "Logger \<Rightarrow> Graceful" where
  "new_Graceful lg =
     \<lparr>dev = None, conn = None, startNoti = [], stop_closed = False, recoveredVer = [],
      recovered = False, runDir = [], progName = [], restartNoti = [], restarting = False,
      pidFile = [], logger = lg, RestartTimeout = 0\<rparr>"

text \<open>The \<^verbatim>\<open>range\<close> loop of \<^verbatim>\<open>checkRecover\<close>: it returns at the first field that
  \<^verbatim>\<open>Atoi\<close> rejects, after logging it.\<close>

fun checkRecover_loop :: "Graceful \<Rightarrow> string list \<Rightarrow> Graceful" where
  "checkRecover_loop gr [] = gr"
| "checkRecover_loop gr (val # vals) =
     (case Atoi val of
        Inl err \<Rightarrow> gr
      | Inr v \<Rightarrow> checkRecover_loop (gr\<lparr>recoveredVer := recoveredVer gr @ [v]\<rparr>) vals)"

definition checkRecover :: "Graceful \<Rightarrow> World \<Rightarrow> Graceful" where
  "checkRecover gr w =
     (let env = os_Getenv w ''_GRACEFUL_RESTART'' in
      if env = [] then gr
      else checkRecover_loop (gr\<lparr>recovered := True\<rparr>) (Split env CHR '',''))"

definition NewGraceful :: "Logger \<Rightarrow> string \<Rightarrow> string \<Rightarrow> World \<Rightarrow> Graceful" where
  "NewGraceful lg rd pn w =
     (let gr = (new_Graceful lg)\<lparr>startNoti := [], stop_closed := False, runDir := rd,
                 recoveredVer := [], progName := pn, restartNoti := []\<rparr>;
          gr = checkRecover gr w
      in gr\<lparr>RestartTimeout := 60\<rparr>)"

text \<open>
  \<^verbatim>\<open>GetConnection\<close>. The session constructor \<^verbatim>\<open>newConnection\<close>, which performs the
  protocol handshake, is a collaborator outside this file: it is the parameter \<open>nc\<close>, giving
  the connection (or nil) and the error it returns, and each call of it is counted in
  \<^const>\<open>handshakes\<close>. In the recovered branch the two inner \<^verbatim>\<open>return err\<close> come after the
  assignment to \<^verbatim>\<open>gr.conn\<close>.
\<close>

definition GetConnection ::
  "(MountConfig \<Rightarrow> Logger \<Rightarrow> Logger \<Rightarrow> File option \<Rightarrow> Connection option \<times> error option) \<Rightarrow>
   Graceful \<Rightarrow> World \<Rightarrow> MountConfig \<Rightarrow> Logger \<Rightarrow> Logger \<Rightarrow> File option \<Rightarrow>
   error option \<times> Graceful \<times> World" where
  "GetConnection nc gr w c dl el d =
     (if recovered gr then
        (let env = os_Getenv w ''_GRACEFUL_RESTART'' in
         if env = [] then (Some (Errorf ''Cannot get fuse version''), gr, w)
         else
           let version = Split env CHR '','' in
           if length version \<noteq> 2 then (Some (Errorf ''Invalid version length''), gr, w)
           else
             let cn = \<lparr>cfg = c, debugLogger = dl, errorLogger = el, conn_dev = d,
                       cancelFuncs = Map.empty, protocol = \<lparr>Major = 0, Minor = 0\<rparr>\<rparr>;
                 gr1 = gr\<lparr>conn := Some cn\<rparr>
             in (case Atoi (version ! 0) of
                   Inl err \<Rightarrow> (Some (ErrNum err), gr1, w)
                 | Inr major \<Rightarrow>
                     (case Atoi (version ! 1) of
                        Inl err \<Rightarrow> (Some (ErrNum err), gr1, w)
                      | Inr minor \<Rightarrow>
                          (None,
                           gr1\<lparr>conn := Some (cn\<lparr>protocol :=
                                  \<lparr>Major = word_of_int major, Minor = word_of_int minor\<rparr>\<rparr>)\<rparr>,
                           w))))
      else
        (let (cn, err) = nc c dl el d
         in (err, gr\<lparr>conn := cn\<rparr>, w\<lparr>handshakes := handshakes w + 1\<rparr>)))"

definition getChildPath :: "Graceful \<Rightarrow> int \<Rightarrow> string" where
  "getChildPath gr p = filepath_Join [runDir gr, progName gr @ ''_'' @ Itoa p]"

text \<open>The handoff record that \<^verbatim>\<open>Restart\<close> builds from the session's protocol version
  (its local \<^verbatim>\<open>ver_str\<close>).\<close>

definition ver_str :: "Connection \<Rightarrow> string" where
  "ver_str cn =
     Join [Itoa (uint (Major (protocol cn))), Itoa (uint (Minor (protocol cn)))] '',''"

text \<open>The readiness loop of \<^verbatim>\<open>Restart\<close>, \<^verbatim>\<open>for i := 0; i < gr.RestartTimeout; i++\<close>: the
  result says whether the loop returned from inside (child ready) or ran out.\<close>

function pollMarker :: "Outside \<Rightarrow> string \<Rightarrow> int \<Rightarrow> int \<Rightarrow> World \<Rightarrow> bool \<times> World" where
  "pollMarker out childPath i timeout w =
     (if i < timeout then
        (if \<not> os_IsNotExist (os_Stat w childPath) then (True, snd (os_Remove childPath w))
         else pollMarker out childPath (i + 1) timeout (time_Sleep out w))
      else (False, w))"
  by pat_completeness auto
termination
  by (relation "measure (\<lambda>(out, childPath, i, timeout, w). nat (timeout - i))") auto

declare pollMarker.simps [simp del]

definition Restart :: "Outside \<Rightarrow> Graceful \<Rightarrow> World \<Rightarrow> (panic + int \<times> error option) \<times> World" where
  "Restart out gr w =
     (case conn gr of
        None \<Rightarrow> (Inl NilPointerDereference, w)
      | Some cn \<Rightarrow>
          (let w1 = os_Setenv ''_GRACEFUL_RESTART'' (ver_str cn) w in
           case cmd_Start out w1 of
             (Inl e, w2) \<Rightarrow> (Inr (0, Some ErrGRestartFailed), w2)
           | (Inr childPid, w2) \<Rightarrow>
               (let childPath = getChildPath gr childPid in
                case pollMarker out childPath 0 (RestartTimeout gr) w2 of
                  (True, w3) \<Rightarrow> (Inr (childPid, None), w3)
                | (False, w3) \<Rightarrow>
                    (case os_FindProcess w3 childPid of
                       None \<Rightarrow> (Inr (childPid, Some ErrGRestartChildNotReady), w3)
                     | Some e \<Rightarrow> (Inr (0, Some ErrGRestartFailed), w3)))))"

definition pidFilePath :: "string \<Rightarrow> string \<Rightarrow> string" where
  "pidFilePath rd pn = filepath_Join [rd, pn @ ''.pid'']"

definition WritePidFile :: "string \<Rightarrow> string \<Rightarrow> World \<Rightarrow> Errno option \<times> World" where
  "WritePidFile rd pn w =
     (case os_OpenFile (pidFilePath rd pn) w of
        (Inl err, w1) \<Rightarrow> (Some err, w1)
      | (Inr f, w1) \<Rightarrow>
          (case file_Seek f 0 w1 of
             Inl err \<Rightarrow> (Some err, w1)
           | Inr f1 \<Rightarrow>
               (case file_Write f1 (Itoa (os_Getpid w1)) w1 of
                  ((fileLen, Some err), f2, w2) \<Rightarrow> (Some err, w2)
                | ((fileLen, None), f2, w2) \<Rightarrow>
                    (case file_Truncate f2 fileLen w2 of
                       (Some err, w3) \<Rightarrow> (Some err, w3)
                     | (None, w3) \<Rightarrow>
                         (case file_Sync f2 w3 of
                            (Some err, w4) \<Rightarrow> (Some err, w4)
                          | (None, w4) \<Rightarrow> (None, w4))))))"

section \<open>The signal-watch task\<close>

text \<open>
  \<^verbatim>\<open>watchDaemon\<close> runs in a goroutine of its own; the Go runtime delivers signals to
  \<^verbatim>\<open>restartNoti\<close> and the callback returns when it likes. The task is a transition system:
  its state is the controller, the place the task is at, and the numbers of callback
  invocations started and returned; an event is one thing that happens.
  \<^item> \<open>Notify\<close>: the runtime delivers a signal. \<^verbatim>\<open>signal.Notify\<close> never blocks: the signal
    goes into the channel's one slot, or is dropped when the slot is taken.
  \<^item> \<open>Receive\<close>: the task, waiting at the \<^verbatim>\<open>select\<close>, takes a signal from the channel and
    runs the locked check-and-set of the flag; it then either is back at the \<^verbatim>\<open>select\<close>
    or has called the callback.
  \<^item> \<open>CallbackReturns err\<close>: the callback the task is in returns \<open>err\<close>.
  An event that cannot happen in a state (a receive from the empty channel, a return when no
  callback runs) leaves it as it is, so every list of events is a schedule. A send that the
  runtime hands straight to the task parked at the \<^verbatim>\<open>select\<close> is a \<open>Notify\<close> followed at
  once by the \<open>Receive\<close>.
\<close>

datatype WatchPc = AtSelect | InCallback | Exited

datatype Event = Notify Signal | Receive | CallbackReturns "error option"

record Watch =
  ctl :: Graceful
  pc :: WatchPc
  invoked :: nat
  returned :: nat

fun watchDaemon_step :: "Watch \<Rightarrow> Event \<Rightarrow> Watch" where
  "watchDaemon_step s (Notify sig) =
     (if length (restartNoti (ctl s)) < 1
      then s\<lparr>ctl := (ctl s)\<lparr>restartNoti := restartNoti (ctl s) @ [sig]\<rparr>\<rparr>
      else s)"
| "watchDaemon_step s Receive =
     (if pc s = AtSelect \<and> restartNoti (ctl s) \<noteq> [] then
        (let s1 = s\<lparr>ctl := (ctl s)\<lparr>restartNoti := tl (restartNoti (ctl s))\<rparr>\<rparr> in
         if restarting (ctl s1) then s1
         else s1\<lparr>ctl := (ctl s1)\<lparr>restarting := True\<rparr>, pc := InCallback,
                 invoked := invoked s1 + 1\<rparr>)
      else s)"
| "watchDaemon_step s (CallbackReturns err) =
     (if pc s = InCallback then
        (case err of
           None \<Rightarrow> s\<lparr>pc := Exited, returned := returned s + 1\<rparr>
         | Some e \<Rightarrow> s\<lparr>ctl := (ctl s)\<lparr>restarting := False\<rparr>, pc := AtSelect,
                       returned := returned s + 1\<rparr>)
      else s)"

fun watchDaemon :: "Watch \<Rightarrow> Event list \<Rightarrow> Watch" where
  "watchDaemon s [] = s"
| "watchDaemon s (ev # evs) = watchDaemon (watchDaemon_step s ev) evs"

text \<open>The watch task as \<^verbatim>\<open>Ready\<close> starts it: at the \<^verbatim>\<open>select\<close>, no callback called yet.\<close>

definition watch_start :: "Graceful \<Rightarrow> Watch" where
  "watch_start gr = \<lparr>ctl = gr, pc = AtSelect, invoked = 0, returned = 0\<rparr>"

section \<open>Auxiliary definitions for the properties\<close>

text \<open>
  What holds of the watch task in every state it can reach: the channel holds at most one
  signal; at the \<^verbatim>\<open>select\<close> the flag is clear and every invocation has returned; inside the
  callback the flag is set and exactly one invocation has not returned.
\<close>

definition watch_inv :: "Watch \<Rightarrow> bool" where
  "watch_inv s =
     (length (restartNoti (ctl s)) \<le> 1 \<and>
      (case pc s of
         AtSelect \<Rightarrow> \<not> restarting (ctl s) \<and> invoked s = returned s
       | InCallback \<Rightarrow> restarting (ctl s) \<and> invoked s = returned s + 1
       | Exited \<Rightarrow> invoked s = returned s))"

text \<open>A machine on which nothing has happened yet, and a controller constructed on it by a
  freshly started process.\<close>

definition world0 :: World where
  "world0 =
     \<lparr>environ = Map.empty, files = Map.empty, fault = (\<lambda>c. Map.empty), procs = {1, 100},
      pid = 100, clock = 0, handshakes = 0, durable = Map.empty\<rparr>"

definition gr0 :: Graceful where
  "gr0 = NewGraceful (Logger 0) ''/run'' ''qfs-fuse'' world0"

text \<open>
  Paths. An element of a path is plain when it is not empty, not \<^verbatim>\<open>.\<close> or \<^verbatim>\<open>..\<close>, and has
  no slash; a directory is clean and absolute when it starts with a slash and every element
  after that is plain (so it has no doubled or trailing slash and is not the root).
\<close>

definition plainElem :: "string \<Rightarrow> bool" where
  "plainElem e = (e \<noteq> [] \<and> e \<noteq> ''.'' \<and> e \<noteq> ''..'' \<and> CHR ''/'' \<notin> set e)"

definition cleanAbsDir :: "string \<Rightarrow> bool" where
  "cleanAbsDir rd =
     (rd \<noteq> [] \<and> hd rd = CHR ''/'' \<and> (\<forall>e \<in> set (tl (Split rd CHR ''/'')). plainElem e))"

text \<open>The first of the given system calls that the kernel refuses on a path, if any.\<close>

fun firstFault :: "World \<Rightarrow> string \<Rightarrow> Syscall list \<Rightarrow> Errno option" where
  "firstFault w path [] = None"
| "firstFault w path (c # cs) =
     (case fault w c path of
        Some e \<Rightarrow> Some e
      | None \<Rightarrow> firstFault w path cs)"

text \<open>The connection that the recovered branch of \<^verbatim>\<open>GetConnection\<close> assigns before it
  parses the version fields.\<close>

definition partial_conn :: "MountConfig \<Rightarrow> Logger \<Rightarrow> Logger \<Rightarrow> File option \<Rightarrow> Connection" where
  "partial_conn c dl el d =
     \<lparr>cfg = c, debugLogger = dl, errorLogger = el, conn_dev = d, cancelFuncs = Map.empty,
      protocol = \<lparr>Major = 0, Minor = 0\<rparr>\<rparr>"

text \<open>The world right after the child has been launched with pid \<open>p\<close>, and the world at the
  \<open>k\<close>-th poll of the readiness loop, \<open>k\<close> seconds of sleep later.\<close>

definition launched :: "Connection \<Rightarrow> int \<Rightarrow> World \<Rightarrow> World" where
  "launched cn p w =
     (os_Setenv ''_GRACEFUL_RESTART'' (ver_str cn) w)\<lparr>procs :=
        insert p (procs (os_Setenv ''_GRACEFUL_RESTART'' (ver_str cn) w))\<rparr>"

definition worldAt :: "Outside \<Rightarrow> World \<Rightarrow> nat \<Rightarrow> World" where
  "worldAt out w k = ((time_Sleep out) ^^ k) w"

text \<open>
  In the specification's words: a field of the handoff record is valid when it is a
  non-negative integer, here a non-empty string of decimal digits; a record is malformed when
  it has the wrong field count or a field that is not numeric.
\<close>

definition spec_nonneg_decimal :: "string \<Rightarrow> bool" where
  "spec_nonneg_decimal f = (f \<noteq> [] \<and> (\<forall>ch \<in> set f. ch \<in> set ''0123456789''))"

definition spec_malformed_record :: "string \<Rightarrow> bool" where
  "spec_malformed_record env =
     (length (Split env CHR '','') \<noteq> 2 \<or>
      (\<exists>f \<in> set (Split env CHR '',''). \<not> spec_nonneg_decimal f))"

text \<open>Concrete inputs: a session constructor that refuses, and the worlds of a process started
  with the handoff records \<^verbatim>\<open>7,x\<close>, \<^verbatim>\<open>-1,5\<close> and \<^verbatim>\<open>7,31\<close>.\<close>

definition nc_refuses ::
  "MountConfig \<Rightarrow> Logger \<Rightarrow> Logger \<Rightarrow> File option \<Rightarrow> Connection option \<times> error option" where
  "nc_refuses c dl el d = (None, Some (ErrCollaborator 0))"

definition world_7x :: World where
  "world_7x = os_Setenv ''_GRACEFUL_RESTART'' ''7,x'' world0"

definition world_neg :: World where
  "world_neg = os_Setenv ''_GRACEFUL_RESTART'' ''-1,5'' world0"

definition world_731 :: World where
  "world_731 = os_Setenv ''_GRACEFUL_RESTART'' ''7,31'' world0"

text \<open>
  Concrete inputs for \<^verbatim>\<open>Restart\<close> and \<^verbatim>\<open>WritePidFile\<close>: a controller that serves a session
  with protocol version 7.31; the marker path of a child with pid 4242; a child that exits
  within the first second without writing its marker; a child that writes its marker during
  the second second; a child that does nothing; an outside that closes the run directory
  during the first second, so that every system call on the marker path is denied from then
  on; a world where the marker cannot be unlinked, and one where the pid file holds
  \<^verbatim>\<open>123456\<close> and the current pid is 7, and the same with \<^verbatim>\<open>fsync\<close> refused on the pid file.
\<close>

definition conn0 :: Connection where
  "conn0 =
     (partial_conn (MountConfig 0) (Logger 0) (Logger 1) (Some (NewFile 5 ''/dev/fuse'')))
       \<lparr>protocol := \<lparr>Major = 7, Minor = 31\<rparr>\<rparr>"

definition gr_serving :: Graceful where
  "gr_serving = gr0\<lparr>conn := Some conn0\<rparr>"

definition marker0 :: string where
  "marker0 = getChildPath gr_serving 4242"

definition out_child_exits :: Outside where
  "out_child_exits = \<lparr>launch = Inr 4242, others = (\<lambda>t w. w\<lparr>procs := procs w - {4242}\<rparr>)\<rparr>"


definition out_child_silent :: Outside where
  "out_child_silent = \<lparr>launch = Inr 4242, others = (\<lambda>t w. w)\<rparr>"


definition out_dir_closed :: Outside where
  "out_dir_closed =
     \<lparr>launch = Inr 4242, others = (\<lambda>t w. w\<lparr>fault := (\<lambda>c. [marker0 \<mapsto> EACCES])\<rparr>)\<rparr>"


definition world_pid7 :: World where
  "world_pid7 =
     world0\<lparr>files := [''/run/qfs-fuse.pid'' \<mapsto> ''123456''],
       durable := [''/run/qfs-fuse.pid'' \<mapsto> ''123456''], pid := 7\<rparr>"

definition world_pid7_nosync :: World where
  "world_pid7_nosync =
     world_pid7\<lparr>fault := (\<lambda>c. if c = SysFsync then [''/run/qfs-fuse.pid'' \<mapsto> EIO] else Map.empty)\<rparr>"

section \<open>The signal-watch task: invariant and continuation\<close>

lemma gr0_fields:
  "recovered gr0 = False" "restarting gr0 = False" "restartNoti gr0 = []"
  "RestartTimeout gr0 = 60" "recoveredVer gr0 = []" "conn gr0 = None"
  by (simp_all add: gr0_def NewGraceful_def new_Graceful_def checkRecover_def os_Getenv_def
      world0_def)

lemma watch_inv_step: "watch_inv s \<Longrightarrow> watch_inv (watchDaemon_step s ev)"
  by (cases ev) (auto simp: watch_inv_def Let_def split: WatchPc.splits option.splits)

lemma watch_inv_run: "watch_inv s \<Longrightarrow> watch_inv (watchDaemon s evs)"
  by (induction evs arbitrary: s) (simp_all add: watch_inv_step)

lemma watch_inv_start:
  "\<not> restarting gr \<Longrightarrow> restartNoti gr = [] \<Longrightarrow> watch_inv (watch_start gr)"
  by (simp add: watch_inv_def watch_start_def)

lemma watch_exited_step:
  "pc s = Exited \<Longrightarrow>
   pc (watchDaemon_step s ev) = Exited \<and> invoked (watchDaemon_step s ev) = invoked s"
  by (cases ev) auto

lemma watch_exited_run:
  "pc s = Exited \<Longrightarrow> pc (watchDaemon s evs) = Exited \<and> invoked (watchDaemon s evs) = invoked s"
proof (induction evs arbitrary: s)
  case Nil
  then show ?case by simp
next
  case (Cons ev evs)
  from Cons.prems
  have st: "pc (watchDaemon_step s ev) = Exited" "invoked (watchDaemon_step s ev) = invoked s"
    using watch_exited_step by blast+
  from Cons.IH [OF st(1)] st(2) show ?case by simp
qed

lemma watchDaemon_append: "watchDaemon s (xs @ ys) = watchDaemon (watchDaemon s xs) ys"
  by (induction xs arbitrary: s) simp_all

text \<open>Signals delivered while the callback runs: the first takes the channel's slot, the
  others are dropped, and nothing else changes.\<close>

lemma burst_in_callback:
  "pc s = InCallback \<Longrightarrow> restartNoti (ctl s) = [] \<Longrightarrow> sigs \<noteq> [] \<Longrightarrow>
   watchDaemon s (map Notify sigs) = s\<lparr>ctl := (ctl s)\<lparr>restartNoti := [hd sigs]\<rparr>\<rparr>"
proof -
  have full: "\<And>t. length (restartNoti (ctl t)) = 1 \<Longrightarrow> watchDaemon t (map Notify sigs') = t"
    for sigs'
    by (induction sigs') simp_all
  assume a: "pc s = InCallback" "restartNoti (ctl s) = []" "sigs \<noteq> []"
  then obtain x xs where sx: "sigs = x # xs"
    by (cases sigs) auto
  show ?thesis
    using a full [of "s\<lparr>ctl := (ctl s)\<lparr>restartNoti := [x]\<rparr>\<rparr>" xs] by (simp add: sx)
qed

lemma first_signal_invokes:
  "watchDaemon (watch_start gr0) [Notify SIGHUP, Receive] =
     \<lparr>ctl = gr0\<lparr>restartNoti := [], restarting := True\<rparr>, pc = InCallback, invoked = 1,
      returned = 0\<rparr>"
  by (simp add: watch_start_def gr0_fields Let_def)

lemma watch_waits_step:
  "pc s = AtSelect \<Longrightarrow> restartNoti (ctl s) = [] \<Longrightarrow> \<forall>sig. ev \<noteq> Notify sig \<Longrightarrow>
   watchDaemon_step s ev = s"
  by (cases ev) simp_all

lemma watch_waits:
  "pc s = AtSelect \<Longrightarrow> restartNoti (ctl s) = [] \<Longrightarrow> \<forall>sig. Notify sig \<notin> set evs \<Longrightarrow>
   watchDaemon s evs = s"
proof (induction evs)
  case Nil
  then show ?case by simp
next
  case (Cons ev evs)
  from Cons.prems(3) have e: "\<forall>sig. ev \<noteq> Notify sig" and r: "\<forall>sig. Notify sig \<notin> set evs"
    by auto
  have "watchDaemon_step s ev = s"
    by (rule watch_waits_step [OF Cons.prems(1) Cons.prems(2) e])
  then show ?case
    using Cons.IH [OF Cons.prems(1) Cons.prems(2) r] by simp
qed

text \<open>
  Claim C6. When the restart callback returns nil, the watch task returns for good: whatever
  happens afterwards, it stays returned and the callback is never invoked again. When the
  callback returns an error, the flag is cleared and the task is back at the \<^verbatim>\<open>select\<close>
  without a new invocation; there it waits: with the channel empty, whatever happens other
  than the delivery of a signal leaves it as it is; and the next restart signal, once
  received, starts a new invocation.
\<close>

theorem watch_continuation:
  "pc s = InCallback \<Longrightarrow>
     (pc (watchDaemon_step s (CallbackReturns None)) = Exited \<and>
      (\<forall>evs. pc (watchDaemon (watchDaemon_step s (CallbackReturns None)) evs) = Exited \<and>
             invoked (watchDaemon (watchDaemon_step s (CallbackReturns None)) evs) = invoked s)) \<and>
     (\<forall>e. \<not> restarting (ctl (watchDaemon_step s (CallbackReturns (Some e)))) \<and>
          pc (watchDaemon_step s (CallbackReturns (Some e))) = AtSelect \<and>
          invoked (watchDaemon_step s (CallbackReturns (Some e))) = invoked s \<and>
          (restartNoti (ctl s) = [] \<longrightarrow>
             (\<forall>evs. (\<forall>sig. Notify sig \<notin> set evs) \<longrightarrow>
                watchDaemon (watchDaemon_step s (CallbackReturns (Some e))) evs =
                  watchDaemon_step s (CallbackReturns (Some e)))) \<and>
          (\<forall>sig.
             pc (watchDaemon (watchDaemon_step s (CallbackReturns (Some e))) [Notify sig, Receive])
               = InCallback \<and>
             invoked
               (watchDaemon (watchDaemon_step s (CallbackReturns (Some e))) [Notify sig, Receive])
               = invoked s + 1))"
proof -
  assume a: "pc s = InCallback"
  let ?x = "watchDaemon_step s (CallbackReturns None)"
  have x: "pc ?x = Exited" "invoked ?x = invoked s"
    using a by simp_all
  have 1: "\<forall>evs. pc (watchDaemon ?x evs) = Exited \<and> invoked (watchDaemon ?x evs) = invoked s"
    using watch_exited_run [OF x(1)] x(2) by simp
  have 2: "\<not> restarting (ctl (watchDaemon_step s (CallbackReturns (Some e))))"
    "pc (watchDaemon_step s (CallbackReturns (Some e))) = AtSelect"
    "invoked (watchDaemon_step s (CallbackReturns (Some e))) = invoked s" for e
    using a by simp_all
  have 3:
    "pc (watchDaemon (watchDaemon_step s (CallbackReturns (Some e))) [Notify sig, Receive])
       = InCallback \<and>
     invoked (watchDaemon (watchDaemon_step s (CallbackReturns (Some e))) [Notify sig, Receive])
       = invoked s + 1" for e sig
    using a by (cases "restartNoti (ctl s)") (simp_all add: Let_def)
  have 4: "watchDaemon (watchDaemon_step s (CallbackReturns (Some e))) evs =
                  watchDaemon_step s (CallbackReturns (Some e))"
    if "restartNoti (ctl s) = []" "\<forall>sig. Notify sig \<notin> set evs" for e evs
  proof -
    have "restartNoti (ctl (watchDaemon_step s (CallbackReturns (Some e)))) = []"
      using a that(1) by simp
    from watch_waits [OF 2(2) this that(2)] show ?thesis .
  qed
  show ?thesis
    using x(1) 1 2 3 4 by blast
qed

theorem watch_continuation_witness:
  "pc (watchDaemon (watch_start gr0) [Notify SIGHUP, Receive]) = InCallback \<and>
   restartNoti (ctl (watchDaemon (watch_start gr0) [Notify SIGHUP, Receive])) = [] \<and>
   pc (watchDaemon
         (watchDaemon_step (watchDaemon (watch_start gr0) [Notify SIGHUP, Receive])
            (CallbackReturns None))
         [Notify SIGHUP, Receive, Notify SIGHUP]) = Exited \<and>
   invoked (watchDaemon
         (watchDaemon_step (watchDaemon (watch_start gr0) [Notify SIGHUP, Receive])
            (CallbackReturns None))
         [Notify SIGHUP, Receive, Notify SIGHUP]) = 1 \<and>
   invoked (watchDaemon
         (watchDaemon_step (watchDaemon (watch_start gr0) [Notify SIGHUP, Receive])
            (CallbackReturns (Some ErrGRestartFailed)))
         [Receive, Receive, CallbackReturns None, Receive]) = 1 \<and>
   pc (watchDaemon
         (watchDaemon_step (watchDaemon (watch_start gr0) [Notify SIGHUP, Receive])
            (CallbackReturns (Some ErrGRestartFailed)))
         [Receive, Receive, CallbackReturns None, Receive]) = AtSelect \<and>
   invoked (watchDaemon
         (watchDaemon_step (watchDaemon (watch_start gr0) [Notify SIGHUP, Receive])
            (CallbackReturns (Some ErrGRestartFailed)))
         [Notify SIGHUP, Receive]) = 2"
proof -
  let ?s = "watchDaemon (watch_start gr0) [Notify SIGHUP, Receive]"
  let ?e = "watchDaemon_step ?s (CallbackReturns (Some ErrGRestartFailed))"
  have h: "pc ?s = InCallback"
    by (simp only: first_signal_invokes) simp
  have i: "invoked ?s = 1"
    by (simp only: first_signal_invokes) simp
  have n: "restartNoti (ctl ?s) = []"
    by (simp only: first_signal_invokes) simp
  have q: "\<forall>sig. Notify sig \<notin> set [Receive, Receive, CallbackReturns None, Receive]"
    by simp
  note t = watch_continuation [OF h]
  from t have nil: "pc (watchDaemon (watchDaemon_step ?s (CallbackReturns None))
         [Notify SIGHUP, Receive, Notify SIGHUP]) = Exited"
    "invoked (watchDaemon (watchDaemon_step ?s (CallbackReturns None))
         [Notify SIGHUP, Receive, Notify SIGHUP]) = invoked ?s"
    by blast+
  from t n q have wait: "watchDaemon ?e [Receive, Receive, CallbackReturns None, Receive] = ?e"
    by blast
  from t have e: "pc ?e = AtSelect" "invoked ?e = invoked ?s"
    by blast+
  from t have again: "invoked (watchDaemon ?e [Notify SIGHUP, Receive]) = invoked ?s + 1"
    by blast
  show ?thesis
    using h n nil wait e again by (simp only: i) simp
qed

section \<open>Decimal text: formatting and parsing\<close>

lemma byteSub_digitChar: "d < 10 \<Longrightarrow> byteSub (digitChar d) CHR ''0'' = d"
proof -
  assume "d < 10"
  then have "d = 0 \<or> d = 1 \<or> d = 2 \<or> d = 3 \<or> d = 4 \<or> d = 5 \<or> d = 6 \<or> d = 7 \<or> d = 8 \<or> d = 9"
    by arith
  then show ?thesis
    by (elim disjE) (simp_all add: digitChar_def byteSub_def)
qed

lemma digitChar_in: "d < 10 \<Longrightarrow> digitChar d \<in> set ''0123456789''"
  unfolding digitChar_def by (rule nth_mem) simp

lemma formatBits_digits: "set (formatBits u) \<subseteq> set ''0123456789''"
proof (induction u rule: formatBits.induct)
  case (1 u)
  show ?case
  proof (cases "u < 10")
    case True
    then show ?thesis using digitChar_in [of u] by (subst formatBits.simps) simp
  next
    case False
    have "u mod 10 < 10" by simp
    then have "digitChar (u mod 10) \<in> set ''0123456789''" by (rule digitChar_in)
    with False 1 show ?thesis by (subst formatBits.simps) simp
  qed
qed

lemma formatBits_nonempty: "formatBits u \<noteq> []"
  by (subst formatBits.simps) simp

lemma formatBits_length: "0 < k \<Longrightarrow> u < 10 ^ k \<Longrightarrow> length (formatBits u) \<le> k"
proof (induction u arbitrary: k rule: formatBits.induct)
  case (1 u)
  show ?case
  proof (cases "u < 10")
    case True
    then show ?thesis using "1.prems" by (subst formatBits.simps) simp
  next
    case False
    with "1.prems" have k1: "1 < k" by (cases "k = 1") auto
    then obtain j where j: "k = Suc j" "0 < j" by (cases k) auto
    from "1.prems" j have "u div 10 < 10 ^ j"
      by (simp add: less_mult_imp_div_less mult.commute)
    from "1.IH" [OF False j(2) this] False j show ?thesis
      by (subst formatBits.simps) simp
  qed
qed

lemma atoiFastLoop_formatBits:
  "atoiFastLoop n (formatBits u @ rest) =
   atoiFastLoop (n * 10 ^ length (formatBits u) + int u) rest"
proof (induction u arbitrary: n rest rule: formatBits.induct)
  case (1 u)
  show ?case
  proof (cases "u < 10")
    case True
    then have f: "formatBits u = [digitChar u]" by (subst formatBits.simps) simp
    show ?thesis using True by (simp add: f byteSub_digitChar)
  next
    case False
    then have f: "formatBits u = formatBits (u div 10) @ [digitChar (u mod 10)]"
      by (subst formatBits.simps) simp
    have m: "byteSub (digitChar (u mod 10)) CHR ''0'' = u mod 10"
      by (rule byteSub_digitChar) simp
    have "atoiFastLoop n (formatBits u @ rest) =
          atoiFastLoop n (formatBits (u div 10) @ (digitChar (u mod 10) # rest))"
      by (simp add: f)
    also have "\<dots> = atoiFastLoop (n * 10 ^ length (formatBits (u div 10)) + int (u div 10))
                      (digitChar (u mod 10) # rest)"
      using "1.IH" [OF False] by simp
    also have "\<dots> = atoiFastLoop
         ((n * 10 ^ length (formatBits (u div 10)) + int (u div 10)) * 10 + int (u mod 10)) rest"
    proof -
      have "\<not> 9 < u mod 10" by arith
      then show ?thesis by (simp add: m Let_def)
    qed
    also have "(n * 10 ^ length (formatBits (u div 10)) + int (u div 10)) * 10 + int (u mod 10)
         = n * 10 ^ length (formatBits u) + int u"
    proof -
      have "int (u div 10) * 10 + int (u mod 10) = int u"
        by (metis mult.commute of_nat_add of_nat_mult of_nat_numeral div_mult_mod_eq mult.commute)
      then show ?thesis by (simp add: f algebra_simps)
    qed
    finally show ?thesis .
  qed
qed

lemma Atoi_Itoa_uint32: "Atoi (Itoa (uint (x :: 32 word))) = Inr (uint x)"
proof -
  let ?u = "unat x"
  have it: "Itoa (uint x) = formatBits ?u"
    by (simp add: Itoa_def)
  have "?u < 2 ^ 32" using unsigned_less [of x] by simp
  then have "?u < 10 ^ 10" by simp
  then have len: "length (formatBits ?u) \<le> 10"
    by (intro formatBits_length) simp_all
  have ne: "formatBits ?u \<noteq> []" by (rule formatBits_nonempty)
  then have hdin: "hd (formatBits ?u) \<in> set ''0123456789''"
    using formatBits_digits [of ?u] by (meson hd_in_set subsetD)
  then have nosign: "hd (formatBits ?u) \<noteq> CHR ''-''" "hd (formatBits ?u) \<noteq> CHR ''+''"
    by auto
  have loop: "atoiFastLoop 0 (formatBits ?u) = Inr (int ?u)"
    using atoiFastLoop_formatBits [of 0 ?u "[]"] by simp
  have "atoiFast (formatBits ?u) = Inr (int ?u)"
    using ne nosign loop by (simp add: atoiFast_def Let_def)
  moreover have "0 < length (formatBits ?u) \<and> length (formatBits ?u) < 19"
    using ne len by simp
  ultimately show ?thesis
    by (simp add: Atoi_def it)
qed

lemma Split_no_sep: "sep \<notin> set s \<Longrightarrow> Split s sep = [s]"
proof -
  assume "sep \<notin> set s"
  then have "dropWhile (\<lambda>c. c \<noteq> sep) s = []" by auto
  then show ?thesis by (subst Split.simps) (simp only: list.case)
qed

lemma Split_at_sep:
  "sep \<notin> set a \<Longrightarrow> Split (a @ sep # b) sep = a # Split b sep"
proof -
  assume n: "sep \<notin> set a"
  then have d: "dropWhile (\<lambda>c. c \<noteq> sep) (a @ sep # b) = sep # b"
    by (induction a) auto
  have t: "takeWhile (\<lambda>c. c \<noteq> sep) (a @ sep # b) = a"
    using n by (induction a) auto
  show ?thesis by (subst Split.simps) (simp add: d t)
qed

lemma comma_not_digit: "CHR '','' \<notin> set (formatBits u)"
  using formatBits_digits [of u] by auto

lemma Split_ver_str:
  "Split (ver_str cn) CHR '','' =
     [Itoa (uint (Major (protocol cn))), Itoa (uint (Minor (protocol cn)))]"
proof -
  have a: "Itoa (uint (Major (protocol cn))) = formatBits (unat (Major (protocol cn)))"
    and b: "Itoa (uint (Minor (protocol cn))) = formatBits (unat (Minor (protocol cn)))"
    by (simp_all add: Itoa_def)
  show ?thesis
    by (simp add: ver_str_def a b Split_at_sep comma_not_digit Split_no_sep)
qed

lemma ver_str_nonempty: "ver_str cn \<noteq> []"
  by (simp add: ver_str_def)

section \<open>GetConnection and NewGraceful\<close>

lemma Atoi_examples:
  "Atoi ''7'' = Inr 7" "Atoi ''x'' = Inl ErrSyntax" "Atoi ''-1'' = Inr (- 1)" "Atoi ''5'' = Inr 5"
  "Atoi ''31'' = Inr 31" "Atoi ''1'' = Inr 1" "Atoi ''2'' = Inr 2" "Atoi ''3'' = Inr 3"
  "Atoi [] = Inl ErrSyntax"
  by (simp_all add: Atoi_def atoiFast_def byteSub_def ParseInt_def)

lemma Split_examples:
  "Split ''7,x'' CHR '','' = [''7'', ''x'']"
  "Split ''-1,5'' CHR '','' = [''-1'', ''5'']"
  "Split ''7,31'' CHR '','' = [''7'', ''31'']"
  "Split ''1,2,3'' CHR '','' = [''1'', ''2'', ''3'']"
  "Split [] CHR '','' = [[]]"
  by (simp_all add: Split.simps)

lemma GetConnection_recovered_ok:
  assumes "recovered gr" "os_Getenv w ''_GRACEFUL_RESTART'' \<noteq> []"
    "Split (os_Getenv w ''_GRACEFUL_RESTART'') CHR '','' = [a, b]"
    "Atoi a = Inr x" "Atoi b = Inr y"
  shows "GetConnection nc gr w c dl el d =
     (None,
      gr\<lparr>conn := Some ((partial_conn c dl el d)\<lparr>protocol :=
              \<lparr>Major = word_of_int x, Minor = word_of_int y\<rparr>\<rparr>)\<rparr>, w)"
  using assms by (simp add: GetConnection_def partial_conn_def Let_def)

lemma GetConnection_recovered_bad_field:
  assumes "recovered gr" "os_Getenv w ''_GRACEFUL_RESTART'' \<noteq> []"
    "Split (os_Getenv w ''_GRACEFUL_RESTART'') CHR '','' = [a, b]"
    "isl (Atoi a) \<or> isl (Atoi b)"
  shows "fst (GetConnection nc gr w c dl el d) \<noteq> None \<and>
         snd (GetConnection nc gr w c dl el d) = (gr\<lparr>conn := Some (partial_conn c dl el d)\<rparr>, w)"
  using assms
  by (auto simp add: GetConnection_def partial_conn_def Let_def split: sum.splits)

lemma GetConnection_recovered_no_record:
  assumes "recovered gr"
    "os_Getenv w ''_GRACEFUL_RESTART'' = [] \<or>
     length (Split (os_Getenv w ''_GRACEFUL_RESTART'') CHR '','') \<noteq> 2"
  shows "fst (GetConnection nc gr w c dl el d) \<noteq> None \<and>
         snd (GetConnection nc gr w c dl el d) = (gr, w)"
  using assms by (auto simp add: GetConnection_def Let_def)

lemma GetConnection_fresh:
  "\<not> recovered gr \<Longrightarrow>
   GetConnection nc gr w c dl el d =
     (snd (nc c dl el d), gr\<lparr>conn := fst (nc c dl el d)\<rparr>, w\<lparr>handshakes := handshakes w + 1\<rparr>)"
  by (simp add: GetConnection_def split: prod.splits)

lemma Getenv_Setenv: "os_Getenv (os_Setenv k v w) k = v"
  by (simp add: os_Getenv_def os_Setenv_def)

lemma checkRecover_loop_eq:
  "checkRecover_loop gr fs =
     gr\<lparr>recoveredVer := recoveredVer gr @ map (\<lambda>f. projr (Atoi f)) (takeWhile (\<lambda>f. \<not> isl (Atoi f)) fs)\<rparr>"
proof (induction fs arbitrary: gr)
  case Nil
  then show ?case by simp
next
  case (Cons f fs)
  show ?case
  proof (cases "Atoi f")
    case (Inl e)
    then show ?thesis by simp
  next
    case (Inr v)
    then show ?thesis by (simp add: Cons.IH)
  qed
qed

lemma world0_env: "os_Getenv world0 k = []"
  by (simp add: os_Getenv_def world0_def)

text \<open>
  Claim C10. On a recovered start with a record of two fields, \<^verbatim>\<open>GetConnection\<close> has assigned
  the controller's connection (configuration, loggers, device handle, empty cancellation
  table, protocol version zero) before it parses the fields: when it returns an error because
  a field fails integer parsing, the controller is left with that connection, whatever it
  held before.
\<close>

theorem GetConnection_not_atomic:
  "recovered gr \<Longrightarrow> os_Getenv w ''_GRACEFUL_RESTART'' \<noteq> [] \<Longrightarrow>
   Split (os_Getenv w ''_GRACEFUL_RESTART'') CHR '','' = [a, b] \<Longrightarrow>
   isl (Atoi a) \<or> isl (Atoi b) \<Longrightarrow>
   fst (GetConnection nc gr w c dl el d) \<noteq> None \<and>
   snd (GetConnection nc gr w c dl el d) =
     (gr\<lparr>conn := Some \<lparr>cfg = c, debugLogger = dl, errorLogger = el, conn_dev = d,
                         cancelFuncs = Map.empty, protocol = \<lparr>Major = 0, Minor = 0\<rparr>\<rparr>\<rparr>, w)"
  using GetConnection_recovered_bad_field [of gr w a b nc c dl el d]
  by (simp add: partial_conn_def)

lemma NewGraceful_eq:
  "NewGraceful lg rd pn w =
     (new_Graceful lg)\<lparr>runDir := rd, progName := pn,
        recovered := (os_Getenv w ''_GRACEFUL_RESTART'' \<noteq> []),
        recoveredVer := map (\<lambda>f. projr (Atoi f))
           (takeWhile (\<lambda>f. \<not> isl (Atoi f)) (Split (os_Getenv w ''_GRACEFUL_RESTART'') CHR '','')),
        RestartTimeout := 60\<rparr>"
  by (simp add: NewGraceful_def checkRecover_def checkRecover_loop_eq new_Graceful_def Let_def
      Split_examples Atoi_examples)

lemma gr_7x:
  "NewGraceful (Logger 0) ''/run'' ''qfs-fuse'' world_7x =
     (new_Graceful (Logger 0))\<lparr>runDir := ''/run'', progName := ''qfs-fuse'', recovered := True,
        recoveredVer := [7], RestartTimeout := 60\<rparr>"
  by (simp add: NewGraceful_eq world_7x_def Getenv_Setenv Split_examples Atoi_examples)

theorem GetConnection_not_atomic_witness:
  "conn (NewGraceful (Logger 0) ''/run'' ''qfs-fuse'' world_7x) = None \<and>
   fst (GetConnection nc_refuses (NewGraceful (Logger 0) ''/run'' ''qfs-fuse'' world_7x) world_7x
          (MountConfig 0) (Logger 0) (Logger 1) (Some (NewFile 3 ''/dev/fuse''))) \<noteq> None \<and>
   conn (fst (snd (GetConnection nc_refuses (NewGraceful (Logger 0) ''/run'' ''qfs-fuse'' world_7x)
          world_7x (MountConfig 0) (Logger 0) (Logger 1) (Some (NewFile 3 ''/dev/fuse''))))) =
     Some \<lparr>cfg = MountConfig 0, debugLogger = Logger 0, errorLogger = Logger 1,
           conn_dev = Some (NewFile 3 ''/dev/fuse''), cancelFuncs = Map.empty,
           protocol = \<lparr>Major = 0, Minor = 0\<rparr>\<rparr>"
proof -
  let ?gr = "NewGraceful (Logger 0) ''/run'' ''qfs-fuse'' world_7x"
  have r: "recovered ?gr" by (simp add: gr_7x)
  have e: "os_Getenv world_7x ''_GRACEFUL_RESTART'' \<noteq> []"
    by (simp add: world_7x_def Getenv_Setenv)
  have s: "Split (os_Getenv world_7x ''_GRACEFUL_RESTART'') CHR '','' = [''7'', ''x'']"
    by (simp add: world_7x_def Getenv_Setenv Split_examples)
  have b: "isl (Atoi ''7'') \<or> isl (Atoi ''x'')"
    by (simp add: Atoi_examples)
  have c: "conn ?gr = None" by (simp add: gr_7x new_Graceful_def)
  from GetConnection_not_atomic [OF r e s b, of nc_refuses "MountConfig 0" "Logger 0" "Logger 1"
      "Some (NewFile 3 ''/dev/fuse'')"] c
  show ?thesis by simp
qed

text \<open>
  Claim C3 says that construction fails fatally on a malformed record. It does not: for the
  records \<^verbatim>\<open>7,x\<close> (a field that is not numeric) and \<^verbatim>\<open>1,2,3\<close> (three fields), both
  malformed in the specification's sense, \<^verbatim>\<open>NewGraceful\<close> returns a controller marked
  recovered, with the fields parsed so far.
\<close>

theorem NewGraceful_malformed_counterexample:
  "spec_malformed_record ''7,x'' \<and>
   NewGraceful (Logger 0) ''/run'' ''qfs-fuse'' (os_Setenv ''_GRACEFUL_RESTART'' ''7,x'' world0) =
     (new_Graceful (Logger 0))\<lparr>runDir := ''/run'', progName := ''qfs-fuse'', recovered := True,
        recoveredVer := [7], RestartTimeout := 60\<rparr> \<and>
   spec_malformed_record ''1,2,3'' \<and>
   NewGraceful (Logger 0) ''/run'' ''qfs-fuse'' (os_Setenv ''_GRACEFUL_RESTART'' ''1,2,3'' world0) =
     (new_Graceful (Logger 0))\<lparr>runDir := ''/run'', progName := ''qfs-fuse'', recovered := True,
        recoveredVer := [1, 2, 3], RestartTimeout := 60\<rparr>"
  by (simp add: NewGraceful_eq Getenv_Setenv Split_examples Atoi_examples spec_malformed_record_def
      spec_nonneg_decimal_def)

text \<open>
  Claim C3, amended. \<^verbatim>\<open>NewGraceful\<close> always returns a controller: run directory and program
  name as given, timeout 60, marked recovered exactly when the handoff record is present
  (not empty); its recovered-version list holds the values of the record's comma-separated
  fields up to, and without, the first field that \<^verbatim>\<open>Atoi\<close> rejects (none for an absent
  record). Neither the field count nor a rejected field makes construction fail.
\<close>

theorem NewGraceful_recovery:
  "NewGraceful lg rd pn w =
     (new_Graceful lg)\<lparr>runDir := rd, progName := pn,
        recovered := (os_Getenv w ''_GRACEFUL_RESTART'' \<noteq> []),
        recoveredVer := map (\<lambda>f. projr (Atoi f))
           (takeWhile (\<lambda>f. \<not> isl (Atoi f)) (Split (os_Getenv w ''_GRACEFUL_RESTART'') CHR '','')),
        RestartTimeout := 60\<rparr>"
proof (cases "os_Getenv w ''_GRACEFUL_RESTART'' = []")
  case True
  then show ?thesis
    by (simp add: NewGraceful_def checkRecover_def new_Graceful_def Split_examples Atoi_examples)
next
  case False
  then show ?thesis
    by (simp add: NewGraceful_def checkRecover_def checkRecover_loop_eq new_Graceful_def)
qed

theorem NewGraceful_recovery_witness:
  "recovered (NewGraceful (Logger 0) ''/run'' ''qfs-fuse'' world_731) \<and>
   recoveredVer (NewGraceful (Logger 0) ''/run'' ''qfs-fuse'' world_731) = [7, 31] \<and>
   RestartTimeout (NewGraceful (Logger 0) ''/run'' ''qfs-fuse'' world_731) = 60 \<and>
   \<not> recovered (NewGraceful (Logger 0) ''/run'' ''qfs-fuse'' world0) \<and>
   recoveredVer (NewGraceful (Logger 0) ''/run'' ''qfs-fuse'' world0) = []"
  using NewGraceful_recovery [of "Logger 0" "''/run''" "''qfs-fuse''" world_731]
    NewGraceful_recovery [of "Logger 0" "''/run''" "''qfs-fuse''" world0]
  by (simp add: world_731_def Getenv_Setenv world0_env Split_examples Atoi_examples)

text \<open>
  Claim C4 says that a recovered \<^verbatim>\<open>GetConnection\<close> returns an error whenever a field is not a
  valid non-negative integer. \<^verbatim>\<open>Atoi\<close> accepts a sign: for the record \<^verbatim>\<open>-1,5\<close> no error is
  returned, and the session's major version is \<open>-1\<close> converted to \<^verbatim>\<open>uint32\<close>.
\<close>

theorem GetConnection_negative_counterexample:
  "\<not> spec_nonneg_decimal ''-1'' \<and>
   recovered (NewGraceful (Logger 0) ''/run'' ''qfs-fuse'' world_neg) \<and>
   GetConnection nc_refuses (NewGraceful (Logger 0) ''/run'' ''qfs-fuse'' world_neg) world_neg
       (MountConfig 0) (Logger 0) (Logger 1) (Some (NewFile 3 ''/dev/fuse'')) =
     (None,
      (NewGraceful (Logger 0) ''/run'' ''qfs-fuse'' world_neg)
        \<lparr>conn := Some \<lparr>cfg = MountConfig 0, debugLogger = Logger 0, errorLogger = Logger 1,
           conn_dev = Some (NewFile 3 ''/dev/fuse''), cancelFuncs = Map.empty,
           protocol = \<lparr>Major = 4294967295, Minor = 5\<rparr>\<rparr>\<rparr>,
      world_neg)"
proof -
  let ?gr = "NewGraceful (Logger 0) ''/run'' ''qfs-fuse'' world_neg"
  have r: "recovered ?gr"
    by (simp add: NewGraceful_eq world_neg_def Getenv_Setenv)
  have e: "os_Getenv world_neg ''_GRACEFUL_RESTART'' \<noteq> []"
    by (simp add: world_neg_def Getenv_Setenv)
  have s: "Split (os_Getenv world_neg ''_GRACEFUL_RESTART'') CHR '','' = [''-1'', ''5'']"
    by (simp add: world_neg_def Getenv_Setenv Split_examples)
  have n: "\<not> spec_nonneg_decimal ''-1''" by (simp add: spec_nonneg_decimal_def)
  have w: "(word_of_int (- 1) :: 32 word) = 4294967295" by simp
  from GetConnection_recovered_ok [OF r e s Atoi_examples(3) Atoi_examples(4)] r n w
  show ?thesis by (simp add: partial_conn_def)
qed

text \<open>
  Claim C4, amended. On a recovered controller \<^verbatim>\<open>GetConnection\<close> returns an error, and
  leaves the world as it is, whenever the handoff record is absent, does not have exactly two
  comma-separated fields, or has a field that \<^verbatim>\<open>Atoi\<close> rejects; otherwise it returns no
  error and sets a session with the given configuration, loggers and device, an empty
  cancellation table and the two parsed values converted to \<^verbatim>\<open>uint32\<close> as protocol
  version, without a call of the session constructor (the world, and with it the count of
  handshakes, is unchanged, and the result does not depend on the constructor). For a record
  that is the decimal text of two 32-bit values the version is exactly those values. On a
  fresh controller the result is that of the session constructor, called once.
\<close>

theorem GetConnection_cases:
  "(recovered gr \<longrightarrow>
      (if os_Getenv w ''_GRACEFUL_RESTART'' = [] \<or>
          length (Split (os_Getenv w ''_GRACEFUL_RESTART'') CHR '','') \<noteq> 2 \<or>
          (\<exists>f \<in> set (Split (os_Getenv w ''_GRACEFUL_RESTART'') CHR '',''). isl (Atoi f))
       then fst (GetConnection nc gr w c dl el d) \<noteq> None \<and>
            snd (snd (GetConnection nc gr w c dl el d)) = w
       else GetConnection nc gr w c dl el d =
              (None,
               gr\<lparr>conn := Some \<lparr>cfg = c, debugLogger = dl, errorLogger = el, conn_dev = d,
                  cancelFuncs = Map.empty,
                  protocol =
                    \<lparr>Major = word_of_int
                        (projr (Atoi (Split (os_Getenv w ''_GRACEFUL_RESTART'') CHR '','' ! 0))),
                     Minor = word_of_int
                        (projr (Atoi (Split (os_Getenv w ''_GRACEFUL_RESTART'') CHR '','' ! 1)))\<rparr>\<rparr>\<rparr>,
               w)) \<and>
      (\<forall>major minor :: 32 word.
         os_Getenv w ''_GRACEFUL_RESTART'' = Itoa (uint major) @ '','' @ Itoa (uint minor) \<longrightarrow>
         GetConnection nc gr w c dl el d =
           (None,
            gr\<lparr>conn := Some \<lparr>cfg = c, debugLogger = dl, errorLogger = el, conn_dev = d,
               cancelFuncs = Map.empty, protocol = \<lparr>Major = major, Minor = minor\<rparr>\<rparr>\<rparr>,
            w))) \<and>
   (\<not> recovered gr \<longrightarrow>
      GetConnection nc gr w c dl el d =
        (snd (nc c dl el d), gr\<lparr>conn := fst (nc c dl el d)\<rparr>,
         w\<lparr>handshakes := handshakes w + 1\<rparr>))"
proof (intro conjI impI allI)
  assume r: "recovered gr"
  let ?env = "os_Getenv w ''_GRACEFUL_RESTART''"
  show "if ?env = [] \<or> length (Split ?env CHR '','') \<noteq> 2 \<or>
          (\<exists>f \<in> set (Split ?env CHR '',''). isl (Atoi f))
       then fst (GetConnection nc gr w c dl el d) \<noteq> None \<and>
            snd (snd (GetConnection nc gr w c dl el d)) = w
       else GetConnection nc gr w c dl el d =
              (None,
               gr\<lparr>conn := Some \<lparr>cfg = c, debugLogger = dl, errorLogger = el, conn_dev = d,
                  cancelFuncs = Map.empty,
                  protocol =
                    \<lparr>Major = word_of_int (projr (Atoi (Split ?env CHR '','' ! 0))),
                     Minor = word_of_int (projr (Atoi (Split ?env CHR '','' ! 1)))\<rparr>\<rparr>\<rparr>,
               w)"
  proof (cases "?env = [] \<or> length (Split ?env CHR '','') \<noteq> 2")
    case True
    with GetConnection_recovered_no_record [OF r True, of nc c dl el d] show ?thesis
      by auto
  next
    case False
    then have ne: "?env \<noteq> []" and l2: "length (Split ?env CHR '','') = 2" by auto
    from l2 obtain a b where ab: "Split ?env CHR '','' = [a, b]"
      by (cases "Split ?env CHR '',''"; cases "tl (Split ?env CHR '','')") auto
    show ?thesis
    proof (cases "isl (Atoi a) \<or> isl (Atoi b)")
      case True
      with GetConnection_recovered_bad_field [OF r ne ab True, of nc c dl el d] ab show ?thesis
        by auto
    next
      case False
      then obtain x y where xy: "Atoi a = Inr x" "Atoi b = Inr y"
        by (cases "Atoi a"; cases "Atoi b") auto
      from GetConnection_recovered_ok [OF r ne ab xy, of nc c dl el d] ne ab xy show ?thesis
        by (simp add: partial_conn_def)
    qed
  qed
next
  fix major minor :: "32 word"
  assume r: "recovered gr"
    and e: "os_Getenv w ''_GRACEFUL_RESTART'' = Itoa (uint major) @ '','' @ Itoa (uint minor)"
  let ?cn = "(partial_conn c dl el d)\<lparr>protocol := \<lparr>Major = major, Minor = minor\<rparr>\<rparr>"
  have v: "os_Getenv w ''_GRACEFUL_RESTART'' = ver_str ?cn"
    by (simp add: e ver_str_def)
  have ne: "os_Getenv w ''_GRACEFUL_RESTART'' \<noteq> []"
    by (simp add: v ver_str_nonempty)
  have sp: "Split (os_Getenv w ''_GRACEFUL_RESTART'') CHR '','' =
              [Itoa (uint major), Itoa (uint minor)]"
    using Split_ver_str [of ?cn] by (simp add: v)
  from GetConnection_recovered_ok [OF r ne sp Atoi_Itoa_uint32 Atoi_Itoa_uint32, of nc c dl el d]
  show "GetConnection nc gr w c dl el d =
           (None,
            gr\<lparr>conn := Some \<lparr>cfg = c, debugLogger = dl, errorLogger = el, conn_dev = d,
               cancelFuncs = Map.empty, protocol = \<lparr>Major = major, Minor = minor\<rparr>\<rparr>\<rparr>,
            w)"
    by (simp add: partial_conn_def)
next
  assume "\<not> recovered gr"
  then show "GetConnection nc gr w c dl el d =
        (snd (nc c dl el d), gr\<lparr>conn := fst (nc c dl el d)\<rparr>,
         w\<lparr>handshakes := handshakes w + 1\<rparr>)"
    by (rule GetConnection_fresh)
qed

lemma gr_731:
  "NewGraceful (Logger 0) ''/run'' ''qfs-fuse'' world_731 =
     (new_Graceful (Logger 0))\<lparr>runDir := ''/run'', progName := ''qfs-fuse'', recovered := True,
        recoveredVer := [7, 31], RestartTimeout := 60\<rparr>"
  by (simp add: NewGraceful_eq world_731_def Getenv_Setenv Split_examples Atoi_examples)

theorem GetConnection_cases_witness:
  "recovered (NewGraceful (Logger 0) ''/run'' ''qfs-fuse'' world_731) \<and>
   GetConnection nc_refuses (NewGraceful (Logger 0) ''/run'' ''qfs-fuse'' world_731) world_731
       (MountConfig 0) (Logger 0) (Logger 1) (Some (NewFile 3 ''/dev/fuse'')) =
     (None,
      (NewGraceful (Logger 0) ''/run'' ''qfs-fuse'' world_731)
        \<lparr>conn := Some \<lparr>cfg = MountConfig 0, debugLogger = Logger 0, errorLogger = Logger 1,
           conn_dev = Some (NewFile 3 ''/dev/fuse''), cancelFuncs = Map.empty,
           protocol = \<lparr>Major = 7, Minor = 31\<rparr>\<rparr>\<rparr>,
      world_731) \<and>
   recovered (NewGraceful (Logger 0) ''/run'' ''qfs-fuse'' world_7x) \<and>
   fst (GetConnection nc_refuses (NewGraceful (Logger 0) ''/run'' ''qfs-fuse'' world_7x) world_7x
       (MountConfig 0) (Logger 0) (Logger 1) (Some (NewFile 3 ''/dev/fuse''))) \<noteq> None \<and>
   \<not> recovered gr0 \<and>
   GetConnection nc_refuses gr0 world0 (MountConfig 0) (Logger 0) (Logger 1) None =
     (Some (ErrCollaborator 0), gr0\<lparr>conn := None\<rparr>, world0\<lparr>handshakes := handshakes world0 + 1\<rparr>)"
proof -
  let ?gr = "NewGraceful (Logger 0) ''/run'' ''qfs-fuse'' world_731"
  let ?gx = "NewGraceful (Logger 0) ''/run'' ''qfs-fuse'' world_7x"
  have r: "recovered ?gr" by (simp add: gr_731)
  have rx: "recovered ?gx" by (simp add: gr_7x)
  have e: "os_Getenv world_731 ''_GRACEFUL_RESTART'' = ''7,31''"
    by (simp add: world_731_def Getenv_Setenv)
  have ex: "os_Getenv world_7x ''_GRACEFUL_RESTART'' = ''7,x''"
    by (simp add: world_7x_def Getenv_Setenv)
  have f: "\<not> recovered gr0" by (simp add: gr0_fields)
  note rec = GetConnection_cases [of ?gr world_731 nc_refuses "MountConfig 0" "Logger 0" "Logger 1"
      "Some (NewFile 3 ''/dev/fuse'')", THEN conjunct1, THEN mp, OF r, THEN conjunct1]
  note bad = GetConnection_cases [of ?gx world_7x nc_refuses "MountConfig 0" "Logger 0" "Logger 1"
      "Some (NewFile 3 ''/dev/fuse'')", THEN conjunct1, THEN mp, OF rx, THEN conjunct1]
  note fresh = GetConnection_cases [of gr0 world0 nc_refuses "MountConfig 0" "Logger 0" "Logger 1"
      None, THEN conjunct2, THEN mp, OF f]
  from rec have 1:
    "GetConnection nc_refuses ?gr world_731 (MountConfig 0) (Logger 0) (Logger 1)
       (Some (NewFile 3 ''/dev/fuse'')) =
     (None,
      ?gr\<lparr>conn := Some \<lparr>cfg = MountConfig 0, debugLogger = Logger 0, errorLogger = Logger 1,
           conn_dev = Some (NewFile 3 ''/dev/fuse''), cancelFuncs = Map.empty,
           protocol = \<lparr>Major = 7, Minor = 31\<rparr>\<rparr>\<rparr>,
      world_731)"
    by (simp add: e Split_examples Atoi_examples)
  from bad have 2:
    "fst (GetConnection nc_refuses ?gx world_7x (MountConfig 0) (Logger 0) (Logger 1)
       (Some (NewFile 3 ''/dev/fuse''))) \<noteq> None"
    by (simp add: ex Split_examples Atoi_examples)
  from 1 2 r rx f fresh show ?thesis
    by (simp add: nc_refuses_def)
qed

section \<open>Paths\<close>

lemma Split_nonempty: "Split s c \<noteq> []"
proof (cases "dropWhile (\<lambda>x. x \<noteq> c) s")
  case Nil
  then show ?thesis by (subst Split.simps) (simp only: list.case, simp)
next
  case (Cons x rest)
  then show ?thesis by (subst Split.simps) (simp only: list.case, simp)
qed

lemma dropWhile_sep_Cons:
  assumes "dropWhile (\<lambda>x. x \<noteq> sep) s = x # rest"
  shows "x = sep" and "s = takeWhile (\<lambda>x. x \<noteq> sep) s @ sep # rest"
    and "sep \<notin> set (takeWhile (\<lambda>x. x \<noteq> sep) s)"
    and "Split s sep = takeWhile (\<lambda>x. x \<noteq> sep) s # Split rest sep"
proof -
  have "dropWhile (\<lambda>x. x \<noteq> sep) s \<noteq> []"
    using assms by simp
  from hd_dropWhile [OF this] show x: "x = sep"
    using assms by simp
  have "takeWhile (\<lambda>x. x \<noteq> sep) s @ dropWhile (\<lambda>x. x \<noteq> sep) s = s"
    by (rule takeWhile_dropWhile_id)
  then show "s = takeWhile (\<lambda>x. x \<noteq> sep) s @ sep # rest"
    using assms x by simp
  show "sep \<notin> set (takeWhile (\<lambda>x. x \<noteq> sep) s)"
    using set_takeWhileD [of sep "\<lambda>x. x \<noteq> sep" s] by blast
  show "Split s sep = takeWhile (\<lambda>x. x \<noteq> sep) s # Split rest sep"
    by (subst Split.simps) (simp only: assms list.case)
qed

lemma dropWhile_sep_Nil:
  assumes "dropWhile (\<lambda>x. x \<noteq> sep) s = []"
  shows "sep \<notin> set s"
  using assms by (induction s) (auto split: if_splits)

lemma Split_append_sep: "Split (a @ c # b) c = Split a c @ Split b c"
proof (induction a c rule: Split.induct)
  case (1 s sep)
  show ?case
  proof (cases "dropWhile (\<lambda>x. x \<noteq> sep) s")
    case Nil
    then have n: "sep \<notin> set s"
      by (rule dropWhile_sep_Nil)
    show ?thesis
      by (simp only: Split_at_sep [OF n] Split_no_sep [OF n]) simp
  next
    case (Cons x rest)
    note c = dropWhile_sep_Cons [OF Cons]
    let ?t = "takeWhile (\<lambda>x. x \<noteq> sep) s"
    have "s @ sep # b = ?t @ sep # (rest @ sep # b)"
      using c(2) by (metis append_Cons append_assoc)
    then have "Split (s @ sep # b) sep = Split (?t @ sep # (rest @ sep # b)) sep"
      by (rule arg_cong)
    also have "\<dots> = ?t # Split (rest @ sep # b) sep"
      by (rule Split_at_sep [OF c(3)])
    also have "\<dots> = ?t # (Split rest sep @ Split b sep)"
      using "1.IH" [OF Cons] by (simp only:)
    also have "\<dots> = Split s sep @ Split b sep"
      by (simp only: c(4) append_Cons)
    finally show ?thesis .
  qed
qed

lemma Join_Split: "Join (Split s c) [c] = s"
proof (induction s c rule: Split.induct)
  case (1 s sep)
  show ?case
  proof (cases "dropWhile (\<lambda>x. x \<noteq> sep) s")
    case Nil
    then have n: "sep \<notin> set s"
      by (rule dropWhile_sep_Nil)
    show ?thesis
      by (simp only: Split_no_sep [OF n] Join.simps)
  next
    case (Cons x rest)
    note c = dropWhile_sep_Cons [OF Cons]
    let ?t = "takeWhile (\<lambda>x. x \<noteq> sep) s"
    obtain y ys where y: "Split rest sep = y # ys"
      using Split_nonempty [of rest sep] by (cases "Split rest sep") auto
    have "Join (Split s sep) [sep] = Join (?t # y # ys) [sep]"
      by (simp only: c(4) y)
    also have "\<dots> = ?t @ [sep] @ Join (Split rest sep) [sep]"
      by (simp only: Join.simps y)
    also have "\<dots> = ?t @ [sep] @ rest"
      using "1.IH" [OF Cons] by (simp only:)
    also have "\<dots> = s"
      using c(2) by simp
    finally show ?thesis .
  qed
qed

lemma Join_snoc: "es \<noteq> [] \<Longrightarrow> Join (es @ [x]) sep = Join es sep @ sep @ x"
  by (induction es sep rule: Join.induct) simp_all

lemma cleanElems_plain:
  "\<forall>e \<in> set es. plainElem e \<Longrightarrow> cleanElems rooted out es = out @ es"
proof (induction es arbitrary: out)
  case Nil
  then show ?case by simp
next
  case (Cons e es)
  then have e: "e \<noteq> []" "e \<noteq> ''.''" "e \<noteq> ''..''" and r: "\<forall>e \<in> set es. plainElem e"
    by (simp_all add: plainElem_def)
  have "cleanElems rooted out (e # es) = cleanElems rooted (out @ [e]) es"
    using e by (simp only: cleanElems.simps) simp
  then show ?case
    using Cons.IH [OF r, of "out @ [e]"] by simp
qed

lemma Split_leading_sep: "Split (c # s) c = [] # Split s c"
  using Split_at_sep [of c "[]" s] by simp

lemma Clean_clean:
  assumes d: "cleanAbsDir rd" and x: "plainElem x"
  shows "Clean (rd @ ''/'' @ x) = rd @ ''/'' @ x"
proof -
  from d obtain r where r: "rd = CHR ''/'' # r"
    by (cases rd) (simp_all add: cleanAbsDir_def)
  let ?es = "Split r CHR ''/''"
  have sp: "Split rd CHR ''/'' = [] # ?es"
    by (simp only: r Split_leading_sep)
  have pl: "\<forall>e \<in> set ?es. plainElem e"
    using d by (simp add: cleanAbsDir_def sp)
  have ne: "?es \<noteq> []"
    by (rule Split_nonempty)
  have jr: "Join ?es ''/'' = r"
    by (rule Join_Split)
  have nx: "CHR ''/'' \<notin> set x"
    using x by (simp add: plainElem_def)
  have "Split (rd @ CHR ''/'' # x) CHR ''/'' = Split rd CHR ''/'' @ Split x CHR ''/''"
    by (rule Split_append_sep)
  then have spx: "Split (rd @ CHR ''/'' # x) CHR ''/'' = [] # (?es @ [x])"
    by (simp only: sp Split_no_sep [OF nx] append_Cons)
  have plx: "\<forall>e \<in> set (?es @ [x]). plainElem e"
    using pl x by simp
  have "cleanElems True [] ([] # (?es @ [x])) = cleanElems True [] (?es @ [x])"
    by simp
  also have "\<dots> = ?es @ [x]"
    using cleanElems_plain [OF plx, of True "[]"] by simp
  finally have ce: "cleanElems True [] ([] # (?es @ [x])) = ?es @ [x]" .
  have ce2: "cleanElems True [] (?es @ [x]) = ?es @ [x]"
    using cleanElems_plain [OF plx, of True "[]"] by simp
  have jn: "Join (?es @ [x]) ''/'' = r @ CHR ''/'' # x"
    using Join_snoc [OF ne, of x "''/''"] by (simp add: jr)
  have p: "rd @ ''/'' @ x = rd @ CHR ''/'' # x"
    by simp
  have h: "hd (rd @ CHR ''/'' # x) = CHR ''/''" "rd @ CHR ''/'' # x \<noteq> []"
    by (simp_all add: r)
  have "Clean (rd @ CHR ''/'' # x) = ''/'' @ Join (?es @ [x]) ''/''"
    unfolding Clean_def Let_def by (simp only: h spx ce) (simp add: ce2)
  also have "\<dots> = rd @ CHR ''/'' # x"
    by (simp only: jn r) simp
  finally show ?thesis
    by (simp only: p)
qed

lemma filepath_Join_clean:
  assumes d: "cleanAbsDir rd" and x: "plainElem x"
  shows "filepath_Join [rd, x] = rd @ ''/'' @ x"
proof -
  have "rd \<noteq> []"
    using d by (simp add: cleanAbsDir_def)
  then have "filepath_Join [rd, x] = Clean (rd @ ''/'' @ x)"
    by (simp add: filepath_Join_def)
  then show ?thesis
    by (simp only: Clean_clean [OF d x])
qed

lemma cleanAbsDir_run: "cleanAbsDir ''/run''"
proof -
  have "Split ''/run'' CHR ''/'' = [[], ''run'']"
    by (simp add: Split.simps)
  then show ?thesis
    by (simp add: cleanAbsDir_def plainElem_def)
qed


lemma plain_pid_name: "CHR ''/'' \<notin> set pn \<Longrightarrow> plainElem (pn @ ''.pid'')"
proof -
  assume n: "CHR ''/'' \<notin> set pn"
  have "length (pn @ ''.pid'') \<ge> 4" by simp
  then have "pn @ ''.pid'' \<noteq> []" "pn @ ''.pid'' \<noteq> ''.''" "pn @ ''.pid'' \<noteq> ''..''"
    by (auto simp del: length_append dest!: arg_cong [where f = length])
  then show ?thesis
    using n by (simp add: plainElem_def)
qed






lemma pid_path_clean:
  "cleanAbsDir rd \<Longrightarrow> CHR ''/'' \<notin> set pn \<Longrightarrow>
   filepath_Join [rd, pn @ ''.pid''] = rd @ ''/'' @ pn @ ''.pid''"
  using filepath_Join_clean [of rd "pn @ ''.pid''"] plain_pid_name [of pn]
  by simp




lemma pidFilePath_run: "pidFilePath ''/run'' ''qfs-fuse'' = ''/run/qfs-fuse.pid''"
  using pid_path_clean [OF cleanAbsDir_run, of "''qfs-fuse''"]
  by (simp add: pidFilePath_def)

section \<open>Restart\<close>

lemma worldAt_0: "worldAt out w 0 = w"
  by (simp add: worldAt_def)

lemma worldAt_Suc: "worldAt out w (Suc k) = worldAt out (time_Sleep out w) k"
  by (simp add: worldAt_def funpow_swap1)

lemma worldAt_Suc': "worldAt out w (Suc k) = time_Sleep out (worldAt out w k)"
  by (simp add: worldAt_def)

lemma worldAt_keeps:
  "environ (worldAt out w k) = environ w \<and> pid (worldAt out w k) = pid w \<and>
   clock (worldAt out w k) = clock w + k \<and> handshakes (worldAt out w k) = handshakes w"
  by (induction k) (simp_all add: worldAt_0 worldAt_Suc' time_Sleep_def)

lemma os_Remove_keeps:
  "environ (snd (os_Remove p w)) = environ w \<and> clock (snd (os_Remove p w)) = clock w \<and>
   procs (snd (os_Remove p w)) = procs w \<and> handshakes (snd (os_Remove p w)) = handshakes w"
  by (simp add: os_Remove_def split: option.splits)

lemma pollMarker_found:
  "i + int k < timeout \<Longrightarrow>
   (\<forall>j<k. os_Stat (worldAt out w j) p = Some ENOENT) \<Longrightarrow>
   os_Stat (worldAt out w k) p \<noteq> Some ENOENT \<Longrightarrow>
   pollMarker out p i timeout w = (True, snd (os_Remove p (worldAt out w k)))"
proof (induction k arbitrary: i w)
  case 0
  then show ?case
    by (subst pollMarker.simps) (simp add: worldAt_0 os_IsNotExist_def)
next
  case (Suc k)
  from Suc.prems(2) have here: "os_Stat w p = Some ENOENT"
    using worldAt_0 [of out w] by (metis zero_less_Suc)
  have lt: "i < timeout" using Suc.prems(1) by simp
  have a: "(i + 1) + int k < timeout" using Suc.prems(1) by simp
  have b: "\<forall>j<k. os_Stat (worldAt out (time_Sleep out w) j) p = Some ENOENT"
    using Suc.prems(2) by (metis Suc_less_eq worldAt_Suc)
  have c: "os_Stat (worldAt out (time_Sleep out w) k) p \<noteq> Some ENOENT"
    using Suc.prems(3) by (simp add: worldAt_Suc)
  from Suc.IH [OF a b c] here lt show ?case
    by (subst pollMarker.simps) (simp add: os_IsNotExist_def worldAt_Suc)
qed

lemma pollMarker_timeout:
  "(\<forall>j. int j < timeout - i \<longrightarrow> os_Stat (worldAt out w j) p = Some ENOENT) \<Longrightarrow>
   pollMarker out p i timeout w = (False, worldAt out w (nat (timeout - i)))"
proof (induction out p i timeout w rule: pollMarker.induct)
  case (1 out p i timeout w)
  show ?case
  proof (cases "i < timeout")
    case False
    then show ?thesis
      by (subst pollMarker.simps) (simp add: worldAt_0)
  next
    case True
    from True have "int 0 < timeout - i" by simp
    with "1.prems" have "os_Stat (worldAt out w 0) p = Some ENOENT" by blast
    then have here: "os_Stat w p = Some ENOENT" by (simp add: worldAt_0)
    have nx: "\<forall>j. int j < timeout - (i + 1) \<longrightarrow>
                os_Stat (worldAt out (time_Sleep out w) j) p = Some ENOENT"
    proof (intro allI impI)
      fix j assume "int j < timeout - (i + 1)"
      then have "int (Suc j) < timeout - i" by simp
      with "1.prems" have "os_Stat (worldAt out w (Suc j)) p = Some ENOENT" by blast
      then show "os_Stat (worldAt out (time_Sleep out w) j) p = Some ENOENT"
        by (simp add: worldAt_Suc)
    qed
    have isne: "\<not> \<not> os_IsNotExist (os_Stat w p)" by (simp add: here os_IsNotExist_def)
    have n: "nat (timeout - i) = Suc (nat (timeout - (i + 1)))" using True by simp
    from "1.IH" [OF True isne nx] here True show ?thesis
      by (subst pollMarker.simps) (simp add: os_IsNotExist_def n worldAt_Suc)
  qed
qed

lemma cmd_Start_ok:
  "launch out = Inr p \<Longrightarrow>
   cmd_Start out (os_Setenv ''_GRACEFUL_RESTART'' (ver_str cn) w) = (Inr p, launched cn p w)"
  by (simp add: cmd_Start_def launched_def)

lemma Restart_launch_failed:
  "conn gr = Some cn \<Longrightarrow> launch out = Inl e \<Longrightarrow>
   Restart out gr w =
     (Inr (0, Some ErrGRestartFailed), os_Setenv ''_GRACEFUL_RESTART'' (ver_str cn) w)"
  by (simp add: Restart_def cmd_Start_def)


lemma Restart_timed_out:
  assumes "conn gr = Some cn" "launch out = Inr p"
    "\<forall>j. int j < RestartTimeout gr \<longrightarrow>
       os_Stat (worldAt out (launched cn p w) j) (getChildPath gr p) = Some ENOENT"
  shows "Restart out gr w =
     (Inr (p, Some ErrGRestartChildNotReady),
      worldAt out (launched cn p w) (nat (RestartTimeout gr)))"
proof -
  have "\<forall>j. int j < RestartTimeout gr - 0 \<longrightarrow>
       os_Stat (worldAt out (launched cn p w) j) (getChildPath gr p) = Some ENOENT"
    using assms(3) by simp
  from pollMarker_timeout [OF this] assms(1) assms(2) show ?thesis
    by (simp add: Restart_def cmd_Start_ok os_FindProcess_def)
qed

lemma Restart_environ:
  "conn gr = Some cn \<Longrightarrow>
   os_Getenv (snd (Restart out gr w)) ''_GRACEFUL_RESTART'' = ver_str cn"
proof -
  assume c: "conn gr = Some cn"
  have pm: "environ (snd (pollMarker out p i t v)) = environ v" for p i t v
  proof (induction out p i t v rule: pollMarker.induct)
    case (1 out p i t v)
    show ?case
    proof (cases "i < t")
      case False
      then show ?thesis by (subst pollMarker.simps) simp
    next
      case True
      show ?thesis
      proof (cases "os_IsNotExist (os_Stat v p)")
        case False
        with True show ?thesis
          by (subst pollMarker.simps) (simp add: os_Remove_keeps)
      next
        case ne: True
        then have nn: "\<not> \<not> os_IsNotExist (os_Stat v p)" by simp
        from "1.IH" [OF True nn] True ne show ?thesis
          by (subst pollMarker.simps) (simp add: time_Sleep_def)
      qed
    qed
  qed
  show ?thesis
  proof (cases "launch out")
    case (Inl e)
    from Restart_launch_failed [OF c Inl] show ?thesis by (simp add: Getenv_Setenv)
  next
    case (Inr p)
    have "environ (snd (Restart out gr w)) = environ (launched cn p w)"
      using c Inr pm [of "getChildPath gr p" 0 "RestartTimeout gr" "launched cn p w"]
      by (cases "pollMarker out (getChildPath gr p) 0 (RestartTimeout gr) (launched cn p w)")
         (auto simp add: Restart_def cmd_Start_ok os_FindProcess_def split: bool.splits)
    then show ?thesis
      by (simp add: os_Getenv_def launched_def os_Setenv_def)
  qed
qed

subsection \<open>Concrete runs\<close>

lemma gr_serving_fields:
  "conn gr_serving = Some conn0" "RestartTimeout gr_serving = 60"
  "getChildPath gr_serving 4242 = marker0"
  by (simp_all add: gr_serving_def gr0_fields marker0_def)

lemma child_exits_worldAt:
  "files (worldAt out_child_exits w k) = files w \<and>
   fault (worldAt out_child_exits w k) = fault w \<and>
   procs (worldAt out_child_exits w k) = (if k = 0 then procs w else procs w - {4242})"
  by (induction k) (auto simp add: worldAt_0 worldAt_Suc' time_Sleep_def out_child_exits_def)

lemma Restart_after_launch:
  "conn gr = Some cn \<Longrightarrow> launch out = Inr p \<Longrightarrow>
   fst (Restart out gr w) = Inr (p, None) \<or>
   fst (Restart out gr w) = Inr (p, Some ErrGRestartChildNotReady)"
  by (cases "pollMarker out (getChildPath gr p) 0 (RestartTimeout gr) (launched cn p w)")
     (auto simp add: Restart_def cmd_Start_ok os_FindProcess_def split: bool.splits)

text \<open>
  Claim C1 says that after the readiness timeout \<^verbatim>\<open>Restart\<close> returns
  \<^verbatim>\<open>ErrGRestartFailed\<close> when the child process is gone. The code asks
  \<^verbatim>\<open>os.FindProcess\<close>, which on Unix succeeds for every pid, so the branch commented
  ``child process actually exists'' is always taken. Here the child with pid 4242 is launched,
  exits within the first second and never writes its marker; after 60 polls it is not among
  the live processes, and \<^verbatim>\<open>Restart\<close> returns \<^verbatim>\<open>(4242, ErrGRestartChildNotReady)\<close>.
  (By \<open>Restart_after_launch\<close> no run returns \<^verbatim>\<open>ErrGRestartFailed\<close> once the launch has
  succeeded; by \<open>Restart_launch_failed\<close> a failed launch does return it.)
\<close>

theorem Restart_child_gone:
  "fst (Restart out_child_exits gr_serving world0) = Inr (4242, Some ErrGRestartChildNotReady) \<and>
   4242 \<notin> procs (snd (Restart out_child_exits gr_serving world0)) \<and>
   files (snd (Restart out_child_exits gr_serving world0)) marker0 = None \<and>
   clock (snd (Restart out_child_exits gr_serving world0)) = 60"
proof -
  have l: "launch out_child_exits = Inr 4242"
    by (simp add: out_child_exits_def)
  have nofile: "files (launched conn0 4242 world0) = Map.empty"
    "fault (launched conn0 4242 world0) = (\<lambda>c. Map.empty)"
    "clock (launched conn0 4242 world0) = 0"
    by (simp_all add: launched_def os_Setenv_def world0_def)
  have st: "\<forall>j. int j < RestartTimeout gr_serving \<longrightarrow>
       os_Stat (worldAt out_child_exits (launched conn0 4242 world0) j)
         (getChildPath gr_serving 4242) = Some ENOENT"
    by (simp add: os_Stat_def child_exits_worldAt nofile)
  have r: "Restart out_child_exits gr_serving world0 =
     (Inr (4242, Some ErrGRestartChildNotReady),
      worldAt out_child_exits (launched conn0 4242 world0) 60)"
    using Restart_timed_out [OF gr_serving_fields(1) l st] by (simp add: gr_serving_fields)
  show ?thesis
    by (simp add: r child_exits_worldAt nofile worldAt_keeps)
qed











text \<open>
  Claim C9. In the readiness loop every outcome of \<^verbatim>\<open>os.Stat\<close> other than a does-not-exist
  error counts as the marker being present, a failure of \<^verbatim>\<open>Stat\<close> such as a permission error
  included: at the first such poll \<^verbatim>\<open>Restart\<close> attempts the removal, drops its error and
  returns \<^verbatim>\<open>(childPid, nil)\<close>; when the removal fails, nothing is changed. So success does not
  need a marker that existed and was removed: in the witness the first poll finds nothing,
  at the second \<^verbatim>\<open>Stat\<close> is denied, no marker exists before or after, and \<^verbatim>\<open>Restart\<close>
  succeeds.
\<close>

theorem Restart_any_stat_outcome:
  "conn gr = Some cn \<Longrightarrow> launch out = Inr p \<Longrightarrow> int k < RestartTimeout gr \<Longrightarrow>
   (\<forall>j<k. os_Stat (worldAt out (launched cn p w) j) (getChildPath gr p) = Some ENOENT) \<Longrightarrow>
   os_Stat (worldAt out (launched cn p w) k) (getChildPath gr p) \<noteq> Some ENOENT \<Longrightarrow>
   Restart out gr w =
     (Inr (p, None), snd (os_Remove (getChildPath gr p) (worldAt out (launched cn p w) k))) \<and>
   (fst (os_Remove (getChildPath gr p) (worldAt out (launched cn p w) k)) \<noteq> None \<longrightarrow>
      snd (Restart out gr w) = worldAt out (launched cn p w) k)"
proof -
  assume a: "conn gr = Some cn" "launch out = Inr p" "int k < RestartTimeout gr"
    "\<forall>j<k. os_Stat (worldAt out (launched cn p w) j) (getChildPath gr p) = Some ENOENT"
    "os_Stat (worldAt out (launched cn p w) k) (getChildPath gr p) \<noteq> Some ENOENT"
  have i: "0 + int k < RestartTimeout gr"
    using a(3) by simp
  have loop: "pollMarker out (getChildPath gr p) 0 (RestartTimeout gr) (launched cn p w) =
      (True, snd (os_Remove (getChildPath gr p) (worldAt out (launched cn p w) k)))"
    by (rule pollMarker_found [OF i a(4) a(5)])
  have r: "Restart out gr w =
     (Inr (p, None), snd (os_Remove (getChildPath gr p) (worldAt out (launched cn p w) k)))"
    using a(1) a(2) loop by (simp add: Restart_def cmd_Start_ok)
  have same: "fst (os_Remove q v) \<noteq> None \<longrightarrow> snd (os_Remove q v) = v" for q v
    by (simp add: os_Remove_def split: option.splits)
  show ?thesis
    using r same by simp
qed

lemma dir_closed_polls:
  "worldAt out_dir_closed (launched conn0 4242 world0) 0 = launched conn0 4242 world0"
  "worldAt out_dir_closed (launched conn0 4242 world0) 1 =
     (launched conn0 4242 world0)\<lparr>fault := (\<lambda>c. [marker0 \<mapsto> EACCES]), clock := 1\<rparr>"
proof -
  show "worldAt out_dir_closed (launched conn0 4242 world0) 0 = launched conn0 4242 world0"
    by (rule worldAt_0)
  have "worldAt out_dir_closed (launched conn0 4242 world0) (Suc 0) =
     (launched conn0 4242 world0)\<lparr>fault := (\<lambda>c. [marker0 \<mapsto> EACCES]), clock := 1\<rparr>"
    by (simp add: worldAt_Suc' worldAt_0 time_Sleep_def out_dir_closed_def launched_def
        os_Setenv_def world0_def)
  then show "worldAt out_dir_closed (launched conn0 4242 world0) 1 =
     (launched conn0 4242 world0)\<lparr>fault := (\<lambda>c. [marker0 \<mapsto> EACCES]), clock := 1\<rparr>"
    by simp
qed

theorem Restart_any_stat_outcome_witness:
  "conn gr_serving = Some conn0 \<and> launch out_dir_closed = Inr 4242 \<and>
   int 1 < RestartTimeout gr_serving \<and>
   os_Stat (worldAt out_dir_closed (launched conn0 4242 world0) 0)
     (getChildPath gr_serving 4242) = Some ENOENT \<and>
   os_Stat (worldAt out_dir_closed (launched conn0 4242 world0) 1)
     (getChildPath gr_serving 4242) = Some EACCES \<and>
   files (worldAt out_dir_closed (launched conn0 4242 world0) 1)
     (getChildPath gr_serving 4242) = None \<and>
   fst (Restart out_dir_closed gr_serving world0) = Inr (4242, None) \<and>
   snd (Restart out_dir_closed gr_serving world0) =
     worldAt out_dir_closed (launched conn0 4242 world0) 1"
proof -
  have l: "launch out_dir_closed = Inr 4242"
    by (simp add: out_dir_closed_def)
  have k: "int 1 < RestartTimeout gr_serving"
    by (simp add: gr_serving_fields)
  have s0: "os_Stat (worldAt out_dir_closed (launched conn0 4242 world0) 0)
              (getChildPath gr_serving 4242) = Some ENOENT"
    by (simp only: dir_closed_polls gr_serving_fields)
       (simp add: os_Stat_def launched_def os_Setenv_def world0_def)
  have a: "\<forall>j<1. os_Stat (worldAt out_dir_closed (launched conn0 4242 world0) j)
              (getChildPath gr_serving 4242) = Some ENOENT"
    using s0 by simp
  have s1: "os_Stat (worldAt out_dir_closed (launched conn0 4242 world0) 1)
              (getChildPath gr_serving 4242) = Some EACCES"
    by (simp only: dir_closed_polls gr_serving_fields)
       (simp add: os_Stat_def launched_def os_Setenv_def world0_def)
  then have b: "os_Stat (worldAt out_dir_closed (launched conn0 4242 world0) 1)
              (getChildPath gr_serving 4242) \<noteq> Some ENOENT"
    by simp
  have f: "files (worldAt out_dir_closed (launched conn0 4242 world0) 1)
             (getChildPath gr_serving 4242) = None"
    by (simp only: dir_closed_polls gr_serving_fields)
       (simp add: launched_def os_Setenv_def world0_def)
  have rm: "fst (os_Remove (getChildPath gr_serving 4242)
              (worldAt out_dir_closed (launched conn0 4242 world0) 1)) \<noteq> None"
    by (simp only: dir_closed_polls gr_serving_fields)
       (simp add: os_Remove_def launched_def os_Setenv_def world0_def)
  note r = Restart_any_stat_outcome [OF gr_serving_fields(1) l k a b]
  from r have r1: "fst (Restart out_dir_closed gr_serving world0) = Inr (4242, None)"
    by simp
  from r rm have r2: "snd (Restart out_dir_closed gr_serving world0) =
     worldAt out_dir_closed (launched conn0 4242 world0) 1"
    by blast
  from gr_serving_fields(1) l k s0 s1 f r1 r2 show ?thesis
    by blast
qed

text \<open>
  Claim C7. For every pair of 32-bit version values: the record that \<^verbatim>\<open>Restart\<close> puts into the
  environment is \<^verbatim>\<open>ver_str\<close> of the session; it splits at the comma into the decimal texts of
  major and minor; and a recovered \<^verbatim>\<open>GetConnection\<close> that reads this record returns no error
  and builds a session whose protocol version is exactly the encoded one.
\<close>

theorem handoff_roundtrip:
  "os_Getenv (snd (Restart out (gr\<lparr>conn := Some cn\<rparr>) w)) ''_GRACEFUL_RESTART'' = ver_str cn \<and>
   Split (ver_str cn) CHR '','' =
     [Itoa (uint (Major (protocol cn))), Itoa (uint (Minor (protocol cn)))] \<and>
   GetConnection nc (grc\<lparr>recovered := True\<rparr>)
       (os_Setenv ''_GRACEFUL_RESTART'' (ver_str cn) wc) c dl el d =
     (None,
      grc\<lparr>recovered := True,
          conn := Some \<lparr>cfg = c, debugLogger = dl, errorLogger = el, conn_dev = d,
                         cancelFuncs = Map.empty, protocol = protocol cn\<rparr>\<rparr>,
      os_Setenv ''_GRACEFUL_RESTART'' (ver_str cn) wc)"
proof -
  have e: "os_Getenv (snd (Restart out (gr\<lparr>conn := Some cn\<rparr>) w)) ''_GRACEFUL_RESTART'' =
      ver_str cn"
    by (rule Restart_environ) simp
  let ?w = "os_Setenv ''_GRACEFUL_RESTART'' (ver_str cn) wc"
  have r: "recovered (grc\<lparr>recovered := True\<rparr>)" by simp
  have ne: "os_Getenv ?w ''_GRACEFUL_RESTART'' \<noteq> []"
    by (simp add: Getenv_Setenv ver_str_nonempty)
  have sp: "Split (os_Getenv ?w ''_GRACEFUL_RESTART'') CHR '','' =
      [Itoa (uint (Major (protocol cn))), Itoa (uint (Minor (protocol cn)))]"
    by (simp add: Getenv_Setenv Split_ver_str)
  have p: "\<lparr>Major = word_of_int (uint (Major (protocol cn))),
            Minor = word_of_int (uint (Minor (protocol cn)))\<rparr> = protocol cn"
    by simp
  from GetConnection_recovered_ok [OF r ne sp Atoi_Itoa_uint32 Atoi_Itoa_uint32, of nc c dl el d]
  have "GetConnection nc (grc\<lparr>recovered := True\<rparr>) ?w c dl el d =
     (None,
      grc\<lparr>recovered := True,
          conn := Some \<lparr>cfg = c, debugLogger = dl, errorLogger = el, conn_dev = d,
                         cancelFuncs = Map.empty, protocol = protocol cn\<rparr>\<rparr>, ?w)"
    by (simp add: partial_conn_def p)
  with e Split_ver_str show ?thesis by simp
qed

theorem handoff_roundtrip_witness:
  "ver_str conn0 = ''7,31'' \<and>
   os_Getenv (snd (Restart out_child_silent gr_serving world0)) ''_GRACEFUL_RESTART'' = ''7,31'' \<and>
   GetConnection nc_refuses (gr0\<lparr>recovered := True\<rparr>) world_731
       (MountConfig 0) (Logger 0) (Logger 1) (Some (NewFile 3 ''/dev/fuse'')) =
     (None,
      gr0\<lparr>recovered := True,
          conn := Some \<lparr>cfg = MountConfig 0, debugLogger = Logger 0, errorLogger = Logger 1,
                         conn_dev = Some (NewFile 3 ''/dev/fuse''), cancelFuncs = Map.empty,
                         protocol = \<lparr>Major = 7, Minor = 31\<rparr>\<rparr>\<rparr>,
      world_731)"
proof -
  have v: "ver_str conn0 = ''7,31''"
    by (simp add: ver_str_def conn0_def partial_conn_def Itoa_def formatBits.simps digitChar_def)
  have g: "gr0\<lparr>conn := Some conn0\<rparr> = gr_serving"
    by (simp add: gr_serving_def)
  have p: "protocol conn0 = \<lparr>Major = 7, Minor = 31\<rparr>"
    by (simp add: conn0_def partial_conn_def)
  from handoff_roundtrip [where out = out_child_silent and gr = gr0 and cn = conn0
      and w = world0 and nc = nc_refuses and grc = gr0 and wc = world0 and c = "MountConfig 0"
      and dl = "Logger 0" and el = "Logger 1" and d = "Some (NewFile 3 ''/dev/fuse'')"] v
  show ?thesis
    by (simp add: g p world_731_def)
qed

section \<open>WritePidFile\<close>

lemma take_own_length: "take (length bs) (padTo (length bs) (bs @ rest)) = bs"
  by (simp add: padTo_def)

lemma take_own_length_only: "take (length bs) (padTo (length bs) bs) = bs"
  by (simp add: padTo_def)

lemma WritePidFile_result:
  "fst (WritePidFile rd pn w) =
     firstFault w (pidFilePath rd pn) [SysOpen, SysSeek, SysWrite, SysTruncate, SysFsync]"
  by (cases "files w (pidFilePath rd pn)")
     (simp_all add: WritePidFile_def os_OpenFile_def file_Seek_def file_Write_def
       file_Truncate_def file_Sync_def Let_def split: option.splits)

lemma WritePidFile_written:
  assumes "fst (WritePidFile rd pn w) = None"
  shows "files (snd (WritePidFile rd pn w)) (pidFilePath rd pn) = Some (Itoa (pid w))"
    and "durable (snd (WritePidFile rd pn w)) (pidFilePath rd pn) = Some (Itoa (pid w))"
proof -
  let ?p = "pidFilePath rd pn"
  from assms have "firstFault w ?p [SysOpen, SysSeek, SysWrite, SysTruncate, SysFsync] = None"
    by (simp only: WritePidFile_result)
  then have f: "fault w SysOpen ?p = None" "fault w SysSeek ?p = None"
    "fault w SysWrite ?p = None" "fault w SysTruncate ?p = None" "fault w SysFsync ?p = None"
    by (simp_all split: option.splits)
  show "files (snd (WritePidFile rd pn w)) ?p = Some (Itoa (pid w))"
    using f
    by (cases "files w ?p")
       (simp_all add: WritePidFile_def os_OpenFile_def file_Seek_def file_Write_def
        file_Truncate_def file_Sync_def Let_def os_Getpid_def content_def take_own_length
        take_own_length_only)
  show "durable (snd (WritePidFile rd pn w)) ?p = Some (Itoa (pid w))"
    using f
    by (cases "files w ?p")
       (simp_all add: WritePidFile_def os_OpenFile_def file_Seek_def file_Write_def
        file_Truncate_def file_Sync_def Let_def os_Getpid_def content_def take_own_length
        take_own_length_only)
qed

text \<open>
  Claim C8. \<^verbatim>\<open>WritePidFile\<close> opens or creates
  \<^verbatim>\<open>filepath.Join(runDir, progName + ".pid")\<close>, seeks to the start, writes the decimal pid,
  truncates to the written length and syncs, in this order: its result is the error of the
  first of these five system calls that is refused, and nil when none is. When it returns
  nil, the file holds exactly the decimal text of the current pid, whatever it held before,
  and so does stable storage. For a clean absolute run directory and a program name without
  slash the file is \<^verbatim>\<open><runDir>/<progName>.pid\<close>. In the witness \<^verbatim>\<open>/run/qfs-fuse.pid\<close> held
  \<^verbatim>\<open>123456\<close>, the pid is 7, and file and stable storage hold \<^verbatim>\<open>7\<close> afterwards; with
  \<^verbatim>\<open>fsync\<close> refused, the error of \<^verbatim>\<open>fsync\<close> is returned.
\<close>

theorem WritePidFile_exact:
  "fst (WritePidFile rd pn w) =
     firstFault w (filepath_Join [rd, pn @ ''.pid''])
       [SysOpen, SysSeek, SysWrite, SysTruncate, SysFsync] \<and>
   ((\<forall>c. fault w c (filepath_Join [rd, pn @ ''.pid'']) = None) \<longrightarrow>
      fst (WritePidFile rd pn w) = None) \<and>
   (fst (WritePidFile rd pn w) = None \<longrightarrow>
      files (snd (WritePidFile rd pn w)) (filepath_Join [rd, pn @ ''.pid'']) =
        Some (Itoa (pid w)) \<and>
      durable (snd (WritePidFile rd pn w)) (filepath_Join [rd, pn @ ''.pid'']) =
        Some (Itoa (pid w))) \<and>
   (cleanAbsDir rd \<and> CHR ''/'' \<notin> set pn \<longrightarrow>
      filepath_Join [rd, pn @ ''.pid''] = rd @ ''/'' @ pn @ ''.pid'')"
proof -
  have p: "pidFilePath rd pn = filepath_Join [rd, pn @ ''.pid'']"
    by (simp add: pidFilePath_def)
  have 1: "fst (WritePidFile rd pn w) =
     firstFault w (filepath_Join [rd, pn @ ''.pid''])
       [SysOpen, SysSeek, SysWrite, SysTruncate, SysFsync]"
    using WritePidFile_result [of rd pn w] by (simp only: p)
  have 2: "(\<forall>c. fault w c (filepath_Join [rd, pn @ ''.pid'']) = None) \<longrightarrow>
      fst (WritePidFile rd pn w) = None"
    by (simp add: 1)
  have 3: "fst (WritePidFile rd pn w) = None \<longrightarrow>
      files (snd (WritePidFile rd pn w)) (filepath_Join [rd, pn @ ''.pid'']) =
        Some (Itoa (pid w)) \<and>
      durable (snd (WritePidFile rd pn w)) (filepath_Join [rd, pn @ ''.pid'']) =
        Some (Itoa (pid w))"
    using WritePidFile_written [of rd pn w] by (simp only: p) blast
  have 4: "cleanAbsDir rd \<and> CHR ''/'' \<notin> set pn \<longrightarrow>
      filepath_Join [rd, pn @ ''.pid''] = rd @ ''/'' @ pn @ ''.pid''"
    using pid_path_clean [of rd pn] by blast
  from 1 2 3 4 show ?thesis by blast
qed

theorem WritePidFile_exact_witness:
  "cleanAbsDir ''/run'' \<and> CHR ''/'' \<notin> set ''qfs-fuse'' \<and>
   filepath_Join [''/run'', ''qfs-fuse'' @ ''.pid''] = ''/run/qfs-fuse.pid'' \<and>
   (\<forall>c. fault world_pid7 c ''/run/qfs-fuse.pid'' = None) \<and>
   files world_pid7 ''/run/qfs-fuse.pid'' = Some ''123456'' \<and>
   fst (WritePidFile ''/run'' ''qfs-fuse'' world_pid7) = None \<and>
   files (snd (WritePidFile ''/run'' ''qfs-fuse'' world_pid7)) ''/run/qfs-fuse.pid'' = Some ''7'' \<and>
   durable (snd (WritePidFile ''/run'' ''qfs-fuse'' world_pid7)) ''/run/qfs-fuse.pid''
     = Some ''7'' \<and>
   fst (WritePidFile ''/run'' ''qfs-fuse'' world_pid7_nosync) = Some EIO"
proof -
  have d: "cleanAbsDir ''/run'' \<and> CHR ''/'' \<notin> set ''qfs-fuse''"
    using cleanAbsDir_run by simp
  note t = WritePidFile_exact [of "''/run''" "''qfs-fuse''" world_pid7]
  note u = WritePidFile_exact [of "''/run''" "''qfs-fuse''" world_pid7_nosync]
  from t d have path: "filepath_Join [''/run'', ''qfs-fuse'' @ ''.pid''] = ''/run/qfs-fuse.pid''"
    by simp
  have f: "\<forall>c. fault world_pid7 c ''/run/qfs-fuse.pid'' = None"
    by (simp add: world_pid7_def world0_def)
  have o: "files world_pid7 ''/run/qfs-fuse.pid'' = Some ''123456''"
    by (simp add: world_pid7_def)
  have i: "Itoa (pid world_pid7) = ''7''"
    by (simp add: world_pid7_def Itoa_def formatBits.simps digitChar_def)
  from t f have ok: "fst (WritePidFile ''/run'' ''qfs-fuse'' world_pid7) = None"
    by (simp only: path) simp
  from t ok have w:
    "files (snd (WritePidFile ''/run'' ''qfs-fuse'' world_pid7)) ''/run/qfs-fuse.pid'' = Some ''7''"
    "durable (snd (WritePidFile ''/run'' ''qfs-fuse'' world_pid7)) ''/run/qfs-fuse.pid''
       = Some ''7''"
    by (simp_all only: path i)
  from u have n: "fst (WritePidFile ''/run'' ''qfs-fuse'' world_pid7_nosync) = Some EIO"
    by (simp only: path) (simp add: world_pid7_nosync_def world_pid7_def world0_def)
  from d path f o ok w n show ?thesis
    by blast
qed

section \<open>Debounce\<close>

text \<open>
  Claim C5 says that for a burst of signals delivered while a callback invocation runs the
  callback is invoked exactly once. A first signal starts an invocation; two more signals
  arrive while it runs. If that invocation returns an error, the signal kept in the channel
  starts a second invocation as soon as the task is back at the \<^verbatim>\<open>select\<close>: two invocations
  in all. If it returns nil, the task has returned and the burst starts none. So the count is
  one neither for the burst alone in both cases, nor for the burst with the invocation it
  fell into.
\<close>

theorem debounce_counterexample:
  "pc (watchDaemon (watch_start gr0) [Notify SIGHUP, Receive]) = InCallback \<and>
   invoked (watchDaemon (watch_start gr0) [Notify SIGHUP, Receive]) = 1 \<and>
   invoked (watchDaemon (watch_start gr0)
      ([Notify SIGHUP, Receive] @ [Notify SIGHUP, Notify SIGHUP] @
       [CallbackReturns (Some ErrGRestartFailed), Receive])) = 2 \<and>
   invoked (watchDaemon (watch_start gr0)
      ([Notify SIGHUP, Receive] @ [Notify SIGHUP, Notify SIGHUP] @
       [CallbackReturns None, Receive])) = 1"
  by (simp only: watchDaemon_append first_signal_invokes) (simp add: Let_def)

text \<open>
  Claim C5, amended. On every schedule from the start of the watch task, at most one callback
  invocation is in progress (invariant I1): the single watch task calls the callback itself
  and takes no signal while it runs; the flag is never found set when the task checks it.
  When signals are delivered while an invocation runs (the channel is empty when it begins),
  none of them starts an invocation during it; the first stays in the one-slot channel and
  the others are dropped. If the
  running invocation returns nil, no further invocation follows; if it returns an error, the
  kept signal starts exactly one further invocation.
\<close>

theorem debounce:
  "\<not> restarting gr \<Longrightarrow> restartNoti gr = [] \<Longrightarrow> s = watchDaemon (watch_start gr) evs \<Longrightarrow>
   invoked s \<le> returned s + 1 \<and>
   (pc s = AtSelect \<longrightarrow> \<not> restarting (ctl s)) \<and>
   (pc s = InCallback \<and> restartNoti (ctl s) = [] \<and> sigs \<noteq> [] \<longrightarrow>
      invoked (watchDaemon s (map Notify sigs)) = invoked s \<and>
      pc (watchDaemon s (map Notify sigs)) = InCallback \<and>
      restartNoti (ctl (watchDaemon s (map Notify sigs))) = [hd sigs] \<and>
      invoked (watchDaemon s (map Notify sigs @ [CallbackReturns None, Receive])) = invoked s \<and>
      (\<forall>e. invoked (watchDaemon s (map Notify sigs @ [CallbackReturns (Some e), Receive]))
            = invoked s + 1))"
proof -
  assume g: "\<not> restarting gr" "restartNoti gr = []" and s: "s = watchDaemon (watch_start gr) evs"
  have inv: "watch_inv s"
    unfolding s by (rule watch_inv_run [OF watch_inv_start [OF g]])
  have i1: "invoked s \<le> returned s + 1"
    using inv by (cases "pc s") (simp_all add: watch_inv_def)
  have flag: "pc s = AtSelect \<longrightarrow> \<not> restarting (ctl s)"
    using inv by (auto simp add: watch_inv_def)
  have burst: "invoked (watchDaemon s (map Notify sigs)) = invoked s \<and>
      pc (watchDaemon s (map Notify sigs)) = InCallback \<and>
      restartNoti (ctl (watchDaemon s (map Notify sigs))) = [hd sigs] \<and>
      invoked (watchDaemon s (map Notify sigs @ [CallbackReturns None, Receive])) = invoked s \<and>
      (\<forall>e. invoked (watchDaemon s (map Notify sigs @ [CallbackReturns (Some e), Receive]))
            = invoked s + 1)"
    if b: "pc s = InCallback \<and> restartNoti (ctl s) = [] \<and> sigs \<noteq> []"
  proof -
    from b have eq: "watchDaemon s (map Notify sigs) = s\<lparr>ctl := (ctl s)\<lparr>restartNoti := [hd sigs]\<rparr>\<rparr>"
      using burst_in_callback [of s sigs] by simp
    show ?thesis
      using b by (simp add: watchDaemon_append eq Let_def)
  qed
  show ?thesis
    using i1 flag burst by blast
qed

theorem debounce_witness:
  "\<not> restarting gr0 \<and> restartNoti gr0 = [] \<and>
   pc (watchDaemon (watch_start gr0) []) = AtSelect \<and>
   \<not> restarting (ctl (watchDaemon (watch_start gr0) [])) \<and>
   pc (watchDaemon (watch_start gr0) [Notify SIGHUP, Receive]) = InCallback \<and>
   restartNoti (ctl (watchDaemon (watch_start gr0) [Notify SIGHUP, Receive])) = [] \<and>
   invoked (watchDaemon (watchDaemon (watch_start gr0) [Notify SIGHUP, Receive])
      (map Notify [SIGHUP, SIGHUP, SIGHUP])) = 1 \<and>
   invoked (watchDaemon (watchDaemon (watch_start gr0) [Notify SIGHUP, Receive])
      (map Notify [SIGHUP, SIGHUP, SIGHUP] @ [CallbackReturns None, Receive])) = 1 \<and>
   invoked (watchDaemon (watchDaemon (watch_start gr0) [Notify SIGHUP, Receive])
      (map Notify [SIGHUP, SIGHUP, SIGHUP] @ [CallbackReturns (Some ErrGRestartChildNotReady), Receive]))
     = 2"
proof -
  let ?s = "watchDaemon (watch_start gr0) [Notify SIGHUP, Receive]"
  have g: "\<not> restarting gr0" "restartNoti gr0 = []"
    by (simp_all add: gr0_fields)
  have p: "pc ?s = InCallback" "restartNoti (ctl ?s) = []" "invoked ?s = 1"
    by (simp_all only: first_signal_invokes) simp_all
  have q: "pc (watchDaemon (watch_start gr0) []) = AtSelect"
    by (simp add: watch_start_def)
  have n: "[SIGHUP, SIGHUP, SIGHUP] \<noteq> []"
    by simp
  from debounce [OF g refl, of "[]" "[]", THEN conjunct2, THEN conjunct1, THEN mp, OF q]
  have idle: "\<not> restarting (ctl (watchDaemon (watch_start gr0) []))" .
  from debounce [OF g refl, of "[Notify SIGHUP, Receive]" "[SIGHUP, SIGHUP, SIGHUP]"] p n g q idle
  show ?thesis
    by simp
qed

end
